theory Spec2Isabelle
  imports Complex_Main
begin

section \<open>Data model (src/types.ts)\<close>

text \<open>
  A JavaScript \<open>number\<close> is embedded as an exact real, or \<open>NaN\<close>. The constructor
  \<open>NaN\<close> also stands for \<open>undefined\<close> (what reading an array past its end gives) and for
  the \<open>null\<close> that the JSON round trip of a snapshot turns both into: the solver only
  compares and computes with its cells, and on every such operation \<open>undefined\<close> behaves as
  \<open>NaN\<close> does. Rounding, signed zero and overflow to an infinity are outside this embedding.
\<close>

datatype number = Num real | NaN

datatype OptimizationType = MAXIMIZE | MINIMIZE

datatype ConstraintType = LESS_THAN_EQ | GREATER_THAN_EQ | EQUALS

record Constraint =
  id_c :: string
  coefficients :: "real list"
  type_c :: ConstraintType
  rhs :: real

text \<open>
  \<open>numVariables\<close> is a natural number: the solver uses it as an array length and as a loop
  bound. The fields \<open>id\<close> and \<open>type\<close> of a constraint and \<open>type\<close> of a model carry
  a suffix, since a record field is a constant of the theory.
\<close>

record LPModel =
  type_m :: OptimizationType
  numVariables :: nat
  variableNames :: "string list"
  objectiveCoefficients :: "real list"
  constraints :: "Constraint list"

text \<open>
  The description of a step is a template string; the embedding keeps the numbers that the
  template interpolates, in the template's order: \<open>pivotRow + 1\<close>, \<open>pivotCol + 1\<close>,
  \<open>pivotCol + 1\<close> and \<open>basicVariables[pivotRow] - numVariables + 1\<close>.
\<close>

datatype Description = OptimalDescription | PivotDescription nat nat nat int

record SimplexStep =
  tableau :: "number list list"
  pivotRow :: "nat option"
  pivotCol :: "nat option"
  basicVariables :: "nat list"
  description :: Description
  isOptimal :: bool

datatype Status = OPTIMAL | UNBOUNDED | INFEASIBLE

record SimplexResult =
  optimalValue :: "number option"
  variableValues :: "number list"
  status :: Status
  steps :: "SimplexStep list"

section \<open>Arithmetic and comparison on numbers\<close>

text \<open>
  A JavaScript number is a double. The embedding takes a real for every finite double
  and computes \<open>/\<close>, \<open>*\<close> and \<open>-\<close> exactly, where the program rounds the result to the
  nearest double and overflows to an infinity; comparisons and the negation are the
  same on both sides. The properties stated below for every model or every state are
  about the order of the tests, the places of the cells and the rows and columns
  selected; the runs that are evaluated are runs on small integers and dyadic
  fractions, which the program computes without rounding.
\<close>

text \<open>\<open>a > b\<close>: false as soon as one side is not a number.\<close>

fun num_gt :: "number \<Rightarrow> number \<Rightarrow> bool" where
  "num_gt (Num x) (Num y) = (x > y)"
| "num_gt _ _ = False"

text \<open>
  \<open>a / b\<close>. The solver divides by the entry of the entering column only after it has
  tested that entry to be strictly positive, so the zero divisor is never met; the
  embedding gives it \<open>NaN\<close> rather than HOL's \<open>x / 0 = 0\<close>.
\<close>

fun num_div :: "number \<Rightarrow> number \<Rightarrow> number" where
  "num_div (Num x) (Num y) = (if y = 0 then NaN else Num (x / y))"
| "num_div _ _ = NaN"

fun num_mul :: "number \<Rightarrow> number \<Rightarrow> number" where
  "num_mul (Num x) (Num y) = Num (x * y)"
| "num_mul _ _ = NaN"

fun num_sub :: "number \<Rightarrow> number \<Rightarrow> number" where
  "num_sub (Num x) (Num y) = Num (x - y)"
| "num_sub _ _ = NaN"

fun num_neg :: "number \<Rightarrow> number" where
  "num_neg (Num x) = Num (- x)"
| "num_neg NaN = NaN"

text \<open>\<open>xs[j]\<close> on an input array: \<open>undefined\<close> past the end.\<close>

definition jsIndex :: "real list \<Rightarrow> nat \<Rightarrow> number" where
  "jsIndex xs j = (if j < length xs then Num (xs ! j) else NaN)"

text \<open>
  \<open>t[i][j] = v\<close> on the tableau. Every write of the solver falls inside the rows and
  columns allocated at line 25 (\<open>i < totalRows\<close>, \<open>j < totalCols\<close>), so that no array
  is ever extended.
\<close>

definition setCell :: "number list list \<Rightarrow> nat \<Rightarrow> nat \<Rightarrow> number \<Rightarrow> number list list" where
  "setCell t i j v = t[i := (t ! i)[j := v]]"

section \<open>The solver (src/services/simplexLogic.ts)\<close>

subsection \<open>Initial tableau\<close>

definition zeroTableau :: "nat \<Rightarrow> nat \<Rightarrow> number list list" where
  "zeroTableau totalRows totalCols = replicate totalRows (replicate totalCols (Num 0))"

text \<open>The body of the loop over the constraints (lines 29 to 42).\<close>

definition fillConstraint ::
  "nat \<Rightarrow> nat \<Rightarrow> Constraint list \<Rightarrow> nat \<Rightarrow> number list list \<times> nat list \<Rightarrow> number list list \<times> nat list"
where
  "fillConstraint numVars totalCols cs i s =
     (case s of (t, bv) \<Rightarrow>
        let c = cs ! i;
            t1 = fold (\<lambda>j t. setCell t i j (jsIndex (coefficients c) j)) [0..<numVars] t;
            t2 = setCell t1 i (numVars + i) (Num 1);
            t3 = setCell t2 i (totalCols - 1) (Num (rhs c))
        in (t3, bv @ [numVars + i]))"

text \<open>The loop over the objective coefficients (lines 47 to 50).\<close>

definition fillObjective :: "bool \<Rightarrow> nat \<Rightarrow> nat \<Rightarrow> real list \<Rightarrow> number list list \<Rightarrow> number list list" where
  "fillObjective isMin numVars totalRows obj t =
     fold (\<lambda>j t. let coeff = jsIndex obj j
                 in setCell t (totalRows - 1) j (if isMin then coeff else num_neg coeff))
          [0..<numVars] t"

record LoopState =
  tableau_s :: "number list list"
  basicVariables_s :: "nat list"
  steps_s :: "SimplexStep list"

definition initialState :: "LPModel \<Rightarrow> LoopState" where
  "initialState model =
     (let numVars = numVariables model;
          cs = constraints model;
          isMin = (type_m model = MINIMIZE);
          numConstraints = length cs;
          totalCols = numVars + numConstraints + 1;
          totalRows = numConstraints + 1;
          filled = fold (fillConstraint numVars totalCols cs) [0..<numConstraints]
                     (zeroTableau totalRows totalCols, []);
          t = fillObjective isMin numVars totalRows (objectiveCoefficients model) (fst filled)
      in \<lparr>tableau_s = t, basicVariables_s = snd filled, steps_s = []\<rparr>)"

subsection \<open>One iteration of the loop\<close>

text \<open>
  The scan of the objective row (lines 61 to 69): the state is \<open>(pivotCol, minValue)\<close>,
  with \<open>None\<close> for the initial \<open>-1\<close>. The test \<open>lastRow[j] < minValue\<close> is false on an
  entry that is not a number.
\<close>

definition scanObjective :: "number list \<Rightarrow> nat \<Rightarrow> nat option \<times> real" where
  "scanObjective lastRow n =
     fold (\<lambda>j s. case s of (pc, minValue) \<Rightarrow>
             (case lastRow ! j of
                Num x \<Rightarrow> if x < minValue then (Some j, x) else (pc, minValue)
              | NaN \<Rightarrow> (pc, minValue)))
          [0..<n] (None, 0)"

text \<open>\<open>minRatio\<close> starts at \<open>Infinity\<close> and afterwards holds a ratio that was a number.\<close>

datatype bound = Infinity | Finite real

fun below :: "number \<Rightarrow> bound \<Rightarrow> bool" where
  "below (Num x) Infinity = True"
| "below (Num x) (Finite y) = (x < y)"
| "below NaN _ = False"

text \<open>
  The ratio test (lines 83 to 97): the state is \<open>(pivotRow, minRatio)\<close>, with \<open>None\<close> for
  the initial \<open>-1\<close>.
\<close>

definition ratioTest :: "number list list \<Rightarrow> nat \<Rightarrow> nat \<Rightarrow> nat \<Rightarrow> nat option \<times> bound" where
  "ratioTest t pc numConstraints totalCols =
     fold (\<lambda>i s. case s of (pr, minRatio) \<Rightarrow>
             (let r = t ! i ! (totalCols - 1);
                  coeff = t ! i ! pc
              in if num_gt coeff (Num 0)
                 then (let ratio = num_div r coeff
                       in if below ratio minRatio
                          then (Some i, case ratio of Num x \<Rightarrow> Finite x | NaN \<Rightarrow> minRatio)
                          else (pr, minRatio))
                 else (pr, minRatio)))
          [0..<numConstraints] (None, Infinity)"

text \<open>Normalising the pivot row (lines 120 to 123).\<close>

definition normalizeRow :: "number list list \<Rightarrow> nat \<Rightarrow> nat \<Rightarrow> nat \<Rightarrow> number list list" where
  "normalizeRow t pr pc totalCols =
     (let pivotElement = t ! pr ! pc
      in fold (\<lambda>j t. setCell t pr j (num_div (t ! pr ! j) pivotElement)) [0..<totalCols] t)"

text \<open>Eliminating the entering column from the other rows (lines 129 to 136).\<close>

definition eliminateRow :: "nat \<Rightarrow> nat \<Rightarrow> nat \<Rightarrow> nat \<Rightarrow> number list list \<Rightarrow> number list list" where
  "eliminateRow pr pc totalCols i t =
     (if i \<noteq> pr
      then (let factor = t ! i ! pc
            in fold (\<lambda>j t. setCell t i j (num_sub (t ! i ! j) (num_mul factor (t ! pr ! j))))
                 [0..<totalCols] t)
      else t)"

definition eliminateRows :: "number list list \<Rightarrow> nat \<Rightarrow> nat \<Rightarrow> nat \<Rightarrow> nat \<Rightarrow> number list list" where
  "eliminateRows t pr pc totalRows totalCols =
     fold (eliminateRow pr pc totalCols) [0..<totalRows] t"

text \<open>
  What one pass through the body of the \<open>while\<close> does: leave the loop by \<open>break\<close>, leave
  the function by \<open>return\<close>, or go round again.
\<close>

datatype Outcome = Continue LoopState | Break LoopState | Return SimplexResult

definition iteration :: "nat \<Rightarrow> nat \<Rightarrow> LoopState \<Rightarrow> Outcome" where
  "iteration numVars numConstraints st =
     (let totalCols = numVars + numConstraints + 1;
          totalRows = numConstraints + 1;
          t = tableau_s st;
          bv = basicVariables_s st;
          lastRow = t ! (totalRows - 1)
      in case fst (scanObjective lastRow (totalCols - 1)) of
           None \<Rightarrow>
             Break (st\<lparr>steps_s := steps_s st @
               [\<lparr>tableau = t, pivotRow = None, pivotCol = None, basicVariables = bv,
                 description = OptimalDescription, isOptimal = True\<rparr>]\<rparr>)
         | Some pc \<Rightarrow>
             (case fst (ratioTest t pc numConstraints totalCols) of
                None \<Rightarrow>
                  Return \<lparr>optimalValue = None, variableValues = [], status = UNBOUNDED,
                          steps = steps_s st\<rparr>
              | Some pr \<Rightarrow>
                  (let steps' = steps_s st @
                         [\<lparr>tableau = t, pivotRow = Some pr, pivotCol = Some pc,
                           basicVariables = bv,
                           description = PivotDescription (pr + 1) (pc + 1) (pc + 1)
                             (int (bv ! pr) - int numVars + 1),
                           isOptimal = False\<rparr>];
                       t1 = normalizeRow t pr pc totalCols;
                       bv' = bv[pr := pc];
                       t2 = eliminateRows t1 pr pc totalRows totalCols
                   in Continue \<lparr>tableau_s = t2, basicVariables_s = bv', steps_s = steps'\<rparr>)))"

subsection \<open>The loop, the extraction and the whole function\<close>

definition maxIterations :: nat where
  "maxIterations = 100"

function whileLoop :: "nat \<Rightarrow> nat \<Rightarrow> nat \<Rightarrow> LoopState \<Rightarrow> SimplexResult + LoopState" where
  "whileLoop numVars numConstraints iterations st =
     (if iterations < maxIterations
      then (case iteration numVars numConstraints st of
              Break st' \<Rightarrow> Inr st'
            | Return res \<Rightarrow> Inl res
            | Continue st' \<Rightarrow> whileLoop numVars numConstraints (iterations + 1) st')
      else Inr st)"
  by pat_completeness auto
termination
  by (relation "measure (\<lambda>(numVars, numConstraints, iterations, st). maxIterations - iterations)")
     auto

text \<open>The equation of the loop is unfolded by hand, one iteration at a time.\<close>

declare whileLoop.simps [simp del]

text \<open>The loop that reads the solution off the basis (lines 142 to 148).\<close>

definition extractValues :: "nat \<Rightarrow> nat \<Rightarrow> nat \<Rightarrow> number list list \<Rightarrow> nat list \<Rightarrow> number list" where
  "extractValues numVars numConstraints totalCols t bv =
     fold (\<lambda>i vs. let basicVarIndex = bv ! i
                  in if basicVarIndex < numVars
                     then vs[basicVarIndex := t ! i ! (totalCols - 1)]
                     else vs)
          [0..<numConstraints] (replicate numVars (Num 0))"

definition extractSolution :: "bool \<Rightarrow> nat \<Rightarrow> nat \<Rightarrow> LoopState \<Rightarrow> SimplexResult" where
  "extractSolution isMin numVars numConstraints st =
     (let totalCols = numVars + numConstraints + 1;
          totalRows = numConstraints + 1;
          t = tableau_s st;
          vs = extractValues numVars numConstraints totalCols t (basicVariables_s st);
          v = t ! (totalRows - 1) ! (totalCols - 1)
      in \<lparr>optimalValue = Some (if isMin then num_neg v else v), variableValues = vs,
          status = OPTIMAL, steps = steps_s st\<rparr>)"

definition solveSimplex :: "LPModel \<Rightarrow> SimplexResult" where
  "solveSimplex model =
     (let numVars = numVariables model;
          numConstraints = length (constraints model);
          isMin = (type_m model = MINIMIZE)
      in case whileLoop numVars numConstraints 0 (initialState model) of
           Inl res \<Rightarrow> res
         | Inr st \<Rightarrow> extractSolution isMin numVars numConstraints st)"

section \<open>Auxiliary notions for the properties\<close>

text \<open>A tableau of \<open>R\<close> rows that all have \<open>C\<close> cells.\<close>

definition shape :: "nat \<Rightarrow> nat \<Rightarrow> number list list \<Rightarrow> bool" where
  "shape R C t \<longleftrightarrow> length t = R \<and> (\<forall>i<R. length (t ! i) = C)"

text \<open>
  The pivot operation in closed form: what lines 120 to 136 compute on a rectangular
  tableau (lemma \<open>pivot_closed\<close> below).
\<close>

definition pivot :: "number list list \<Rightarrow> nat \<Rightarrow> nat \<Rightarrow> number list list" where
  "pivot t pr pc =
     (let prow = map (\<lambda>x. num_div x (t ! pr ! pc)) (t ! pr)
      in map (\<lambda>i. if i = pr then prow
                   else map (\<lambda>j. num_sub (t ! i ! j) (num_mul (t ! i ! pc) (prow ! j)))
                          [0..<length prow])
           [0..<length t])"

text \<open>
  Row \<open>i\<close> is a candidate of the ratio test with ratio \<open>x\<close>: its entry in the entering
  column is a strictly positive number and its right-hand side is a number.
\<close>

definition candidate :: "number list list \<Rightarrow> nat \<Rightarrow> nat \<Rightarrow> nat \<Rightarrow> real \<Rightarrow> bool" where
  "candidate t pc lc i x \<longleftrightarrow>
     (\<exists>q e. t ! i ! pc = Num q \<and> 0 < q \<and> t ! i ! lc = Num e \<and> x = e / q)"

text \<open>
  The state of the loop when it tests \<open>iterations < maxIterations\<close> with
  \<open>iterations = n\<close>, that is after \<open>n\<close> pivots; \<open>None\<close> when the loop was left before.
\<close>

fun stateAfter :: "LPModel \<Rightarrow> nat \<Rightarrow> LoopState option" where
  "stateAfter model 0 = Some (initialState model)"
| "stateAfter model (Suc n) =
     (case stateAfter model n of
        None \<Rightarrow> None
      | Some st \<Rightarrow>
          (case iteration (numVariables model) (length (constraints model)) st of
             Continue st' \<Rightarrow> Some st'
           | Break st' \<Rightarrow> None
           | Return res \<Rightarrow> None))"

text \<open>The rows of the initial tableau in closed form.\<close>

definition constraintRow :: "nat \<Rightarrow> nat \<Rightarrow> Constraint \<Rightarrow> nat \<Rightarrow> number list" where
  "constraintRow numVars numConstraints c i =
     ((map (jsIndex (coefficients c)) [0..<numVars] @ replicate (numConstraints + 1) (Num 0))
        [numVars + i := Num 1])[numVars + numConstraints := Num (rhs c)]"

definition objectiveRow :: "bool \<Rightarrow> nat \<Rightarrow> nat \<Rightarrow> real list \<Rightarrow> number list" where
  "objectiveRow isMin numVars numConstraints obj =
     map (\<lambda>j. if isMin then jsIndex obj j else num_neg (jsIndex obj j)) [0..<numVars]
     @ replicate (numConstraints + 1) (Num 0)"

text \<open>
  The invariant of the loop on the basis: the tableau is rectangular, no column is basic in
  two rows, the column of the basic variable of row \<open>i\<close> holds, in every row (the
  objective row too), \<open>1\<close> in row \<open>i\<close> and \<open>0\<close> elsewhere wherever it holds a number, and
  a basic variable is the slack of its row or the entering column of a recorded step.
\<close>

definition basisInv :: "nat \<Rightarrow> nat \<Rightarrow> LoopState \<Rightarrow> bool" where
  "basisInv N M st \<longleftrightarrow>
     (let t = tableau_s st; bv = basicVariables_s st
      in shape (M + 1) (N + M + 1) t \<and> length bv = M \<and> distinct bv \<and>
         (\<forall>i<M. bv ! i < N + M \<and>
            (\<forall>k<M + 1. t ! k ! (bv ! i) = NaN \<or> t ! k ! (bv ! i) = Num (if k = i then 1 else 0))) \<and>
         (\<forall>i<M. bv ! i = N + i \<or> (\<exists>s\<in>set (steps_s st). pivotCol s = Some (bv ! i))))"

subsection \<open>Concrete models and the states of their runs\<close>

text \<open>
  The model of the first testable property of the specification: maximise
  \<open>10 x1 + 20 x2\<close> under \<open>x1 + x2 \<le> 50\<close> and \<open>2 x1 + 4 x2 \<le> 120\<close>.
\<close>

definition exampleModel :: LPModel where
  "exampleModel =
     \<lparr>type_m = MAXIMIZE, numVariables = 2, variableNames = [''x1'', ''x2''],
      objectiveCoefficients = [10, 20],
      constraints =
        [\<lparr>id_c = ''c-0'', coefficients = [1, 1], type_c = LESS_THAN_EQ, rhs = 50\<rparr>,
         \<lparr>id_c = ''c-1'', coefficients = [2, 4], type_c = LESS_THAN_EQ, rhs = 120\<rparr>]\<rparr>"

text \<open>Maximise \<open>x1 + x2\<close> under \<open>x1 - x2 \<le> 1\<close>: unbounded, which the second iteration finds.\<close>

definition unboundedModel :: LPModel where
  "unboundedModel =
     \<lparr>type_m = MAXIMIZE, numVariables = 2, variableNames = [''x1'', ''x2''],
      objectiveCoefficients = [1, 1],
      constraints =
        [\<lparr>id_c = ''c-0'', coefficients = [1, - 1], type_c = LESS_THAN_EQ, rhs = 1\<rparr>]\<rparr>"

text \<open>The states and the pivot step that \<open>solveSimplex\<close> goes through on \<open>exampleModel\<close>.\<close>

definition exampleStep1 :: SimplexStep where
  "exampleStep1 =
     \<lparr>tableau =
        [[Num 1, Num 1, Num 1, Num 0, Num 50],
         [Num 2, Num 4, Num 0, Num 1, Num 120],
         [Num (- 10), Num (- 20), Num 0, Num 0, Num 0]],
      pivotRow = Some 1, pivotCol = Some 1, basicVariables = [2, 3],
      description = PivotDescription 2 2 2 2, isOptimal = False\<rparr>"

definition exampleState0 :: LoopState where
  "exampleState0 =
     \<lparr>tableau_s =
        [[Num 1, Num 1, Num 1, Num 0, Num 50],
         [Num 2, Num 4, Num 0, Num 1, Num 120],
         [Num (- 10), Num (- 20), Num 0, Num 0, Num 0]],
      basicVariables_s = [2, 3], steps_s = []\<rparr>"

definition exampleState1 :: LoopState where
  "exampleState1 =
     \<lparr>tableau_s =
        [[Num (1 / 2), Num 0, Num 1, Num (- (1 / 4)), Num 20],
         [Num (1 / 2), Num 1, Num 0, Num (1 / 4), Num 30],
         [Num 0, Num 0, Num 0, Num 5, Num 600]],
      basicVariables_s = [2, 1], steps_s = [exampleStep1]\<rparr>"

text \<open>
  A degenerate model on which the pivot rule of the solver cycles: maximise
  \<open>10 x1 - 57 x2 - 9 x3 - 24 x4\<close> under \<open>x1/2 - 11 x2/2 - 5 x3/2 + 9 x4 \<le> 0\<close>,
  \<open>x1/2 - 3 x2/2 - x3/2 + x4 \<le> 0\<close> and \<open>x1 \<le> 1\<close>. The point \<open>(1, 0, 1, 0)\<close> is feasible
  with objective value \<open>1\<close>. Every number that occurs is a dyadic rational, so the run in
  double precision is the exact one.
\<close>

definition chvatalModel :: LPModel where
  "chvatalModel =
     \<lparr>type_m = MAXIMIZE, numVariables = 4,
      variableNames = [''x1'', ''x2'', ''x3'', ''x4''],
      objectiveCoefficients = [10, - 57, - 9, - 24],
      constraints =
        [\<lparr>id_c = ''c-0'', coefficients = [1 / 2, - (11 / 2), - (5 / 2), 9],
          type_c = LESS_THAN_EQ, rhs = 0\<rparr>,
         \<lparr>id_c = ''c-1'', coefficients = [1 / 2, - (3 / 2), - (1 / 2), 1],
          type_c = LESS_THAN_EQ, rhs = 0\<rparr>,
         \<lparr>id_c = ''c-2'', coefficients = [1, 0, 0, 0], type_c = LESS_THAN_EQ, rhs = 1\<rparr>]\<rparr>"

text \<open>The six tableaux of the cycle, with their bases and pivots.\<close>

definition chvatalT0 :: "number list list" where
  "chvatalT0 =
     [[Num (1 / 2), Num (- (11 / 2)), Num (- (5 / 2)), Num 9, Num 1, Num 0, Num 0, Num 0],
      [Num (1 / 2), Num (- (3 / 2)), Num (- (1 / 2)), Num 1, Num 0, Num 1, Num 0, Num 0],
      [Num 1, Num 0, Num 0, Num 0, Num 0, Num 0, Num 1, Num 1],
      [Num (- 10), Num 57, Num 9, Num 24, Num 0, Num 0, Num 0, Num 0]]"

definition chvatalT1 :: "number list list" where
  "chvatalT1 =
     [[Num 1, Num (- 11), Num (- 5), Num 18, Num 2, Num 0, Num 0, Num 0],
      [Num 0, Num 4, Num 2, Num (- 8), Num (- 1), Num 1, Num 0, Num 0],
      [Num 0, Num 11, Num 5, Num (- 18), Num (- 2), Num 0, Num 1, Num 1],
      [Num 0, Num (- 53), Num (- 41), Num 204, Num 20, Num 0, Num 0, Num 0]]"

definition chvatalT2 :: "number list list" where
  "chvatalT2 =
     [[Num 1, Num 0, Num (1 / 2), Num (- 4), Num (- (3 / 4)), Num (11 / 4), Num 0, Num 0],
      [Num 0, Num 1, Num (1 / 2), Num (- 2), Num (- (1 / 4)), Num (1 / 4), Num 0, Num 0],
      [Num 0, Num 0, Num (- (1 / 2)), Num 4, Num (3 / 4), Num (- (11 / 4)), Num 1, Num 1],
      [Num 0, Num 0, Num (- (29 / 2)), Num 98, Num (27 / 4), Num (53 / 4), Num 0, Num 0]]"

definition chvatalT3 :: "number list list" where
  "chvatalT3 =
     [[Num 2, Num 0, Num 1, Num (- 8), Num (- (3 / 2)), Num (11 / 2), Num 0, Num 0],
      [Num (- 1), Num 1, Num 0, Num 2, Num (1 / 2), Num (- (5 / 2)), Num 0, Num 0],
      [Num 1, Num 0, Num 0, Num 0, Num 0, Num 0, Num 1, Num 1],
      [Num 29, Num 0, Num 0, Num (- 18), Num (- 15), Num 93, Num 0, Num 0]]"

definition chvatalT4 :: "number list list" where
  "chvatalT4 =
     [[Num (- 2), Num 4, Num 1, Num 0, Num (1 / 2), Num (- (9 / 2)), Num 0, Num 0],
      [Num (- (1 / 2)), Num (1 / 2), Num 0, Num 1, Num (1 / 4), Num (- (5 / 4)), Num 0, Num 0],
      [Num 1, Num 0, Num 0, Num 0, Num 0, Num 0, Num 1, Num 1],
      [Num 20, Num 9, Num 0, Num 0, Num (- (21 / 2)), Num (141 / 2), Num 0, Num 0]]"

definition chvatalT5 :: "number list list" where
  "chvatalT5 =
     [[Num (- 4), Num 8, Num 2, Num 0, Num 1, Num (- 9), Num 0, Num 0],
      [Num (1 / 2), Num (- (3 / 2)), Num (- (1 / 2)), Num 1, Num 0, Num 1, Num 0, Num 0],
      [Num 1, Num 0, Num 0, Num 0, Num 0, Num 0, Num 1, Num 1],
      [Num (- 22), Num 93, Num 21, Num 0, Num 0, Num (- 24), Num 0, Num 0]]"

definition chvatalTableaus :: "number list list list" where
  "chvatalTableaus = [chvatalT0, chvatalT1, chvatalT2, chvatalT3, chvatalT4, chvatalT5]"

definition chvatalBases :: "nat list list" where
  "chvatalBases = [[4, 5, 6], [0, 5, 6], [0, 1, 6], [2, 1, 6], [2, 3, 6], [4, 3, 6]]"

definition chvatalPivots :: "(nat \<times> nat) list" where
  "chvatalPivots = [(0, 0), (1, 1), (0, 2), (1, 3), (0, 4), (1, 5)]"

text \<open>The state at the start of iteration \<open>k\<close>, and the step that iteration records.\<close>

definition chvatalState :: "nat \<Rightarrow> SimplexStep list \<Rightarrow> LoopState" where
  "chvatalState k ss =
     \<lparr>tableau_s = chvatalTableaus ! (k mod 6), basicVariables_s = chvatalBases ! (k mod 6),
      steps_s = ss\<rparr>"

definition chvatalStep :: "nat \<Rightarrow> SimplexStep" where
  "chvatalStep k =
     (let pr = fst (chvatalPivots ! (k mod 6)); pc = snd (chvatalPivots ! (k mod 6))
      in \<lparr>tableau = chvatalTableaus ! (k mod 6), pivotRow = Some pr, pivotCol = Some pc,
          basicVariables = chvatalBases ! (k mod 6),
          description = PivotDescription (pr + 1) (pc + 1) (pc + 1)
            (int (chvatalBases ! (k mod 6) ! pr) - 4 + 1),
          isOptimal = False\<rparr>)"

definition exampleFinal :: LoopState where
  "exampleFinal =
     exampleState1\<lparr>steps_s := [exampleStep1,
       \<lparr>tableau = tableau_s exampleState1, pivotRow = None, pivotCol = None,
         basicVariables = basicVariables_s exampleState1,
         description = OptimalDescription, isOptimal = True\<rparr>]\<rparr>"

text \<open>
  \<open>exampleModel\<close> stated as a minimisation of the negated objective, and with other
  relation types, identifiers and variable names.
\<close>

definition exampleMinModel :: LPModel where
  "exampleMinModel = exampleModel\<lparr>type_m := MINIMIZE, objectiveCoefficients := [- 10, - 20]\<rparr>"

definition exampleRelabelled :: LPModel where
  "exampleRelabelled =
     \<lparr>type_m = MAXIMIZE, numVariables = 2, variableNames = [''chairs'', ''tables''],
      objectiveCoefficients = [10, 20],
      constraints =
        [\<lparr>id_c = ''wood'', coefficients = [1, 1], type_c = GREATER_THAN_EQ, rhs = 50\<rparr>,
         \<lparr>id_c = ''hours'', coefficients = [2, 4], type_c = EQUALS, rhs = 120\<rparr>]\<rparr>"

text \<open>
  The model with every coefficient sequence cut to its first \<open>numVariables\<close> entries.
\<close>

definition truncated :: "LPModel \<Rightarrow> LPModel" where
  "truncated model =
     model\<lparr>objectiveCoefficients := take (numVariables model) (objectiveCoefficients model),
           constraints := map (\<lambda>c. c\<lparr>coefficients := take (numVariables model) (coefficients c)\<rparr>)
                            (constraints model)\<rparr>"

text \<open>
  Malformed models: no variable and no objective; and \<open>exampleModel\<close> with a third
  coefficient in its first constraint.
\<close>

definition emptyModel :: LPModel where
  "emptyModel =
     \<lparr>type_m = MAXIMIZE, numVariables = 0, variableNames = [], objectiveCoefficients = [],
      constraints = []\<rparr>"

definition longModel :: LPModel where
  "longModel =
     exampleModel\<lparr>constraints :=
       [\<lparr>id_c = ''c-0'', coefficients = [1, 1, 7], type_c = LESS_THAN_EQ, rhs = 50\<rparr>,
        \<lparr>id_c = ''c-1'', coefficients = [2, 4], type_c = LESS_THAN_EQ, rhs = 120\<rparr>]\<rparr>"




text \<open>
  Models that break the invariant of \<open>LPModel\<close> and that the solver accepts: one variable
  and no objective coefficient; and a second constraint without coefficients.
\<close>

definition noObjectiveModel :: LPModel where
  "noObjectiveModel =
     \<lparr>type_m = MAXIMIZE, numVariables = 1, variableNames = [''x1''],
      objectiveCoefficients = [],
      constraints = [\<lparr>id_c = ''c-0'', coefficients = [1], type_c = LESS_THAN_EQ, rhs = 1\<rparr>]\<rparr>"

definition shortRowModel :: LPModel where
  "shortRowModel =
     \<lparr>type_m = MAXIMIZE, numVariables = 1, variableNames = [''x1''],
      objectiveCoefficients = [1],
      constraints =
        [\<lparr>id_c = ''c-0'', coefficients = [1], type_c = LESS_THAN_EQ, rhs = 1\<rparr>,
         \<lparr>id_c = ''c-1'', coefficients = [], type_c = LESS_THAN_EQ, rhs = 1\<rparr>]\<rparr>"

definition shortRowState0 :: LoopState where
  "shortRowState0 =
     \<lparr>tableau_s =
        [[Num 1, Num 1, Num 0, Num 1],
         [NaN, Num 0, Num 1, Num 1],
         [Num (- 1), Num 0, Num 0, Num 0]],
      basicVariables_s = [1, 2], steps_s = []\<rparr>"

definition shortRowState1 :: LoopState where
  "shortRowState1 =
     \<lparr>tableau_s =
        [[Num 1, Num 1, Num 0, Num 1],
         [NaN, NaN, NaN, NaN],
         [Num 0, Num 1, Num 0, Num 1]],
      basicVariables_s = [0, 2],
      steps_s =
        [\<lparr>tableau = tableau_s shortRowState0, pivotRow = Some 0, pivotCol = Some 0,
          basicVariables = [1, 2], description = PivotDescription 1 1 1 1,
          isOptimal = False\<rparr>]\<rparr>"

section \<open>Closed forms of the loops\<close>

lemma fold_setCell_row:
  assumes i: "i < length t" and n: "n \<le> length (t ! i)"
    and f: "\<And>u j. j < n \<Longrightarrow> length u = length t \<Longrightarrow>
              (\<forall>a. a \<noteq> i \<longrightarrow> a < length t \<longrightarrow> u ! a = t ! a) \<Longrightarrow>
              length (u ! i) = length (t ! i) \<Longrightarrow>
              (\<forall>b. j \<le> b \<longrightarrow> b < length (t ! i) \<longrightarrow> u ! i ! b = t ! i ! b) \<Longrightarrow>
              f j u = g j"
  shows "fold (\<lambda>j u. setCell u i j (f j u)) [0..<n] t = t[i := map g [0..<n] @ drop n (t ! i)]"
  using n f
proof (induction n)
  case 0
  then show ?case by simp
next
  case (Suc n)
  let ?u = "t[i := map g [0..<n] @ drop n (t ! i)]"
  have n: "n < length (t ! i)" using Suc.prems(1) by simp
  have IH: "fold (\<lambda>j u. setCell u i j (f j u)) [0..<n] t = ?u"
    using Suc.IH Suc.prems by simp
  have ui: "?u ! i = map g [0..<n] @ drop n (t ! i)" using i by simp
  have "f n ?u = g n"
  proof (rule Suc.prems(2))
    show "\<forall>b. n \<le> b \<longrightarrow> b < length (t ! i) \<longrightarrow> ?u ! i ! b = t ! i ! b"
      using n by (auto simp: ui nth_append)
  qed (use i n in \<open>auto simp: ui\<close>)
  moreover have "(map g [0..<n] @ drop n (t ! i))[n := g n] = map g [0..<Suc n] @ drop (Suc n) (t ! i)"
    using n by (simp add: list_update_append Cons_nth_drop_Suc [symmetric])
  moreover have "fold (\<lambda>j u. setCell u i j (f j u)) [0..<Suc n] t = setCell ?u i n (f n ?u)"
    by (simp add: IH)
  ultimately show ?case
    using i by (simp add: setCell_def)
qed

lemma normalizeRow_closed:
  assumes "shape R C t" "pr < R"
  shows "normalizeRow t pr pc C = t[pr := map (\<lambda>x. num_div x (t ! pr ! pc)) (t ! pr)]"
proof -
  have len: "length (t ! pr) = C" "pr < length t" using assms by (auto simp: shape_def)
  have "fold (\<lambda>j u. setCell u pr j (num_div (u ! pr ! j) (t ! pr ! pc))) [0..<C] t
        = t[pr := map (\<lambda>j. num_div (t ! pr ! j) (t ! pr ! pc)) [0..<C] @ drop C (t ! pr)]"
    by (rule fold_setCell_row) (use len in auto)
  moreover have "map (\<lambda>j. num_div (t ! pr ! j) (t ! pr ! pc)) [0..<C]
                 = map (\<lambda>x. num_div x (t ! pr ! pc)) (t ! pr)"
    using len(1) by (auto simp: list_eq_iff_nth_eq)
  ultimately show ?thesis using len by (simp add: normalizeRow_def)
qed

lemma eliminateRow_closed:
  assumes "shape R C t" "i < R" "pr < R" "i \<noteq> pr"
  shows "eliminateRow pr pc C i t
         = t[i := map (\<lambda>j. num_sub (t ! i ! j) (num_mul (t ! i ! pc) (t ! pr ! j))) [0..<C]]"
proof -
  have len: "length (t ! i) = C" "i < length t" "pr < length t"
    using assms by (auto simp: shape_def)
  have "fold (\<lambda>j u. setCell u i j (num_sub (u ! i ! j) (num_mul (t ! i ! pc) (u ! pr ! j)))) [0..<C] t
        = t[i := map (\<lambda>j. num_sub (t ! i ! j) (num_mul (t ! i ! pc) (t ! pr ! j))) [0..<C]
                 @ drop C (t ! i)]"
    by (rule fold_setCell_row) (use len assms(4) in auto)
  then show ?thesis using len assms(4) by (simp add: eliminateRow_def)
qed

lemma eliminateRows_prefix:
  assumes "shape R C t" "pr < R" "k \<le> R"
  shows "fold (eliminateRow pr pc C) [0..<k] t
         = map (\<lambda>i. if i = pr then t ! pr
                     else map (\<lambda>j. num_sub (t ! i ! j) (num_mul (t ! i ! pc) (t ! pr ! j))) [0..<C])
             [0..<k] @ drop k t"
    (is "_ = map ?h [0..<k] @ _")
  using assms(3)
proof (induction k)
  case 0
  then show ?case by simp
next
  case (Suc k)
  let ?u = "map ?h [0..<k] @ drop k t"
  have k: "k < R" "k < length t" using Suc.prems assms(1) by (auto simp: shape_def)
  have IH: "fold (eliminateRow pr pc C) [0..<k] t = ?u" using Suc by simp
  have lenu: "length ?u = R" using k assms(1) by (simp add: shape_def)
  have rows: "\<And>a. a < R \<Longrightarrow> ?u ! a = (if a < k then ?h a else t ! a)"
    using k assms(1) by (auto simp: nth_append shape_def)
  have shu: "shape R C ?u"
    unfolding shape_def using lenu rows assms(1,2) by (auto simp: shape_def)
  have uk: "?u ! k = t ! k" using rows [of k] k by simp
  have upr: "?u ! pr = t ! pr" using rows [of pr] assms(2) by simp
  have upd: "?u[k := ?h k] = map ?h [0..<Suc k] @ drop (Suc k) t"
    using k by (simp add: list_update_append Cons_nth_drop_Suc [symmetric])
  have "eliminateRow pr pc C k ?u = ?u[k := ?h k]"
  proof (cases "k = pr")
    case True
    have "?u[k := ?h k] = ?u"
      using uk lenu k True by (subst list_update_same_conv) auto
    then show ?thesis using True by (simp add: eliminateRow_def)
  next
    case False
    then show ?thesis
      using eliminateRow_closed [OF shu k(1) assms(2) False, of pc] by (simp add: uk upr)
  qed
  then show ?case by (simp add: IH upd)
qed

lemma shape_update:
  "shape R C t \<Longrightarrow> length row = C \<Longrightarrow> shape R C (t[i := row])"
  by (cases "i < length t") (auto simp: shape_def nth_list_update)

lemma pivot_closed:
  assumes "shape R C t" "pr < R"
  shows "eliminateRows (normalizeRow t pr pc C) pr pc R C = pivot t pr pc"
proof -
  let ?prow = "map (\<lambda>x. num_div x (t ! pr ! pc)) (t ! pr)"
  let ?t1 = "t[pr := ?prow]"
  have len: "length t = R" "length (t ! pr) = C" using assms by (auto simp: shape_def)
  have sh1: "shape R C ?t1" using assms len by (intro shape_update) auto
  have "eliminateRows ?t1 pr pc R C
        = map (\<lambda>i. if i = pr then ?t1 ! pr
                    else map (\<lambda>j. num_sub (?t1 ! i ! j) (num_mul (?t1 ! i ! pc) (?t1 ! pr ! j))) [0..<C])
            [0..<R]"
    using eliminateRows_prefix [OF sh1 assms(2), of R pc] len by (simp add: eliminateRows_def)
  also have "\<dots> = pivot t pr pc"
    using len assms(2) by (auto simp: pivot_def Let_def)
  finally show ?thesis by (simp add: normalizeRow_closed [OF assms])
qed

lemma shape_pivot: "shape R C t \<Longrightarrow> pr < R \<Longrightarrow> shape R C (pivot t pr pc)"
  by (auto simp: shape_def pivot_def Let_def)

lemma pivot_nth:
  assumes "shape R C t" "pr < R" "i < R" "j < C"
  shows "pivot t pr pc ! i ! j =
           (if i = pr then num_div (t ! pr ! j) (t ! pr ! pc)
            else num_sub (t ! i ! j) (num_mul (t ! i ! pc) (num_div (t ! pr ! j) (t ! pr ! pc))))"
  using assms by (auto simp: shape_def pivot_def Let_def)

section \<open>The scan of the objective row and the ratio test\<close>

lemma scanObjective_Suc:
  "scanObjective row (Suc n) =
     (case scanObjective row n of (pc, minValue) \<Rightarrow>
        (case row ! n of
           Num x \<Rightarrow> if x < minValue then (Some n, x) else (pc, minValue)
         | NaN \<Rightarrow> (pc, minValue)))"
  by (simp add: scanObjective_def)

lemma scanObjective_inv:
  "case scanObjective row n of
     (None, mv) \<Rightarrow> mv = 0 \<and> (\<forall>j<n. \<forall>x. row ! j = Num x \<longrightarrow> 0 \<le> x)
   | (Some c, mv) \<Rightarrow> c < n \<and> row ! c = Num mv \<and> mv < 0 \<and>
        (\<forall>j<n. \<forall>x. row ! j = Num x \<longrightarrow> mv \<le> x) \<and>
        (\<forall>j<c. \<forall>x. row ! j = Num x \<longrightarrow> mv < x)"
proof (induction n)
  case 0
  then show ?case by (simp add: scanObjective_def)
next
  case (Suc n)
  obtain pc mv where s: "scanObjective row n = (pc, mv)" by (cases "scanObjective row n")
  show ?case
  proof (cases pc)
    case None
    then show ?thesis using Suc s
      by (cases "row ! n") (auto simp: scanObjective_Suc less_Suc_eq)
  next
    case (Some c)
    then show ?thesis using Suc s
      by (cases "row ! n") (auto simp: scanObjective_Suc less_Suc_eq)
  qed
qed

lemma scanObjective_None:
  assumes "fst (scanObjective row n) = None"
  shows "\<forall>j<n. \<forall>x. row ! j = Num x \<longrightarrow> 0 \<le> x"
  using scanObjective_inv [where row=row and n=n] assms by (cases "scanObjective row n") auto

lemma scanObjective_Some:
  assumes "fst (scanObjective row n) = Some c"
  shows "c < n \<and> (\<exists>mv. row ! c = Num mv \<and> mv < 0 \<and>
        (\<forall>j<n. \<forall>x. row ! j = Num x \<longrightarrow> mv \<le> x) \<and>
        (\<forall>j<c. \<forall>x. row ! j = Num x \<longrightarrow> mv < x))"
  using scanObjective_inv [where row=row and n=n] assms by (cases "scanObjective row n") auto

lemma scanObjective_None_iff:
  "fst (scanObjective row n) = None \<longleftrightarrow> (\<forall>j<n. \<forall>x. row ! j = Num x \<longrightarrow> 0 \<le> x)"
proof
  assume "\<forall>j<n. \<forall>x. row ! j = Num x \<longrightarrow> 0 \<le> x"
  then show "fst (scanObjective row n) = None"
    using scanObjective_Some [where row=row and n=n] by (cases "fst (scanObjective row n)") fastforce+
qed (rule scanObjective_None)

lemma ratioTest_Suc:
  "ratioTest t pc (Suc k) totalCols =
     (case ratioTest t pc k totalCols of (pr, minRatio) \<Rightarrow>
        (let r = t ! k ! (totalCols - 1);
             coeff = t ! k ! pc
         in if num_gt coeff (Num 0)
            then (let ratio = num_div r coeff
                  in if below ratio minRatio
                     then (Some k, case ratio of Num x \<Rightarrow> Finite x | NaN \<Rightarrow> minRatio)
                     else (pr, minRatio))
            else (pr, minRatio)))"
  by (simp add: ratioTest_def)

lemma ratioTest_inv:
  "case ratioTest t pc k totalCols of
     (None, mr) \<Rightarrow> mr = Infinity \<and> (\<forall>i<k. \<forall>x. \<not> candidate t pc (totalCols - 1) i x)
   | (Some r, mr) \<Rightarrow> r < k \<and> (\<exists>y. mr = Finite y \<and> candidate t pc (totalCols - 1) r y \<and>
        (\<forall>i<k. \<forall>x. candidate t pc (totalCols - 1) i x \<longrightarrow> y \<le> x) \<and>
        (\<forall>i<r. \<forall>x. candidate t pc (totalCols - 1) i x \<longrightarrow> y < x))"
proof (induction k)
  case 0
  then show ?case by (simp add: ratioTest_def)
next
  case (Suc k)
  obtain pr mr where s: "ratioTest t pc k totalCols = (pr, mr)"
    by (cases "ratioTest t pc k totalCols")
  have cand: "\<And>x. candidate t pc (totalCols - 1) k x \<longleftrightarrow>
     num_gt (t ! k ! pc) (Num 0) \<and> num_div (t ! k ! (totalCols - 1)) (t ! k ! pc) = Num x"
    by (cases "t ! k ! pc"; cases "t ! k ! (totalCols - 1)") (auto simp: candidate_def)
  show ?case
  proof (cases "num_gt (t ! k ! pc) (Num 0)")
    case False
    then show ?thesis using Suc s cand
      by (cases pr) (auto simp: ratioTest_Suc less_Suc_eq)
  next
    case True
    show ?thesis
    proof (cases "num_div (t ! k ! (totalCols - 1)) (t ! k ! pc)")
      case NaN
      then show ?thesis using Suc s cand True
        by (cases pr) (auto simp: ratioTest_Suc less_Suc_eq)
    next
      case (Num x)
      show ?thesis
      proof (cases pr)
        case None
        then show ?thesis using Suc s cand True Num
          by (auto simp: ratioTest_Suc less_Suc_eq)
      next
        case (Some r)
        then obtain y where y: "mr = Finite y" "r < k" "candidate t pc (totalCols - 1) r y"
          "\<forall>i<k. \<forall>x. candidate t pc (totalCols - 1) i x \<longrightarrow> y \<le> x"
          "\<forall>i<r. \<forall>x. candidate t pc (totalCols - 1) i x \<longrightarrow> y < x"
          using Suc s by auto
        show ?thesis
        proof (cases "x < y")
          case True
          have "ratioTest t pc (Suc k) totalCols = (Some k, Finite x)"
            using s \<open>num_gt (t ! k ! pc) (Num 0)\<close> Num y(1) True by (simp add: ratioTest_Suc)
          moreover have "candidate t pc (totalCols - 1) k x"
            using cand \<open>num_gt (t ! k ! pc) (Num 0)\<close> Num by simp
          moreover have "\<forall>i<Suc k. \<forall>x'. candidate t pc (totalCols - 1) i x' \<longrightarrow> x \<le> x'"
            using y(4) True cand Num by (fastforce simp: less_Suc_eq)
          moreover have "\<forall>i<k. \<forall>x'. candidate t pc (totalCols - 1) i x' \<longrightarrow> x < x'"
            using y(4) True by fastforce
          ultimately show ?thesis by simp
        next
          case False
          have "ratioTest t pc (Suc k) totalCols = (Some r, Finite y)"
            using s \<open>num_gt (t ! k ! pc) (Num 0)\<close> Num y(1) False Some by (simp add: ratioTest_Suc)
          moreover have "\<forall>i<Suc k. \<forall>x'. candidate t pc (totalCols - 1) i x' \<longrightarrow> y \<le> x'"
            using y(4) False cand Num by (fastforce simp: less_Suc_eq)
          ultimately show ?thesis using y by simp
        qed
      qed
    qed
  qed
qed

subsection \<open>The three ways out of an iteration\<close>

lemma ratioTest_None:
  assumes "fst (ratioTest t pc k totalCols) = None"
  shows "\<forall>i<k. \<forall>x. \<not> candidate t pc (totalCols - 1) i x"
  using ratioTest_inv [where t=t and pc=pc and k=k and totalCols=totalCols] assms
  by (cases "ratioTest t pc k totalCols") auto

lemma ratioTest_Some:
  assumes "fst (ratioTest t pc k totalCols) = Some r"
  shows "r < k \<and> (\<exists>y. candidate t pc (totalCols - 1) r y \<and>
        (\<forall>i<k. \<forall>x. candidate t pc (totalCols - 1) i x \<longrightarrow> y \<le> x) \<and>
        (\<forall>i<r. \<forall>x. candidate t pc (totalCols - 1) i x \<longrightarrow> y < x))"
  using ratioTest_inv [where t=t and pc=pc and k=k and totalCols=totalCols] assms
  by (cases "ratioTest t pc k totalCols") auto

lemma candidate_positive: "candidate t pc lc i x \<Longrightarrow> num_gt (t ! i ! pc) (Num 0)"
  by (auto simp: candidate_def)

lemma ratioTest_no_positive:
  assumes "\<forall>i<k. \<not> num_gt (t ! i ! pc) (Num 0)"
  shows "fst (ratioTest t pc k totalCols) = None"
proof (cases "fst (ratioTest t pc k totalCols)")
  case (Some r)
  then show ?thesis using ratioTest_Some [OF Some] assms candidate_positive by blast
qed simp

lemma iteration_Break:
  assumes "fst (scanObjective (tableau_s st ! M) (N + M)) = None"
  shows "iteration N M st = Break (st\<lparr>steps_s := steps_s st @
               [\<lparr>tableau = tableau_s st, pivotRow = None, pivotCol = None,
                 basicVariables = basicVariables_s st,
                 description = OptimalDescription, isOptimal = True\<rparr>]\<rparr>)"
  using assms by (simp add: iteration_def Let_def)

lemma iteration_Return:
  assumes "fst (scanObjective (tableau_s st ! M) (N + M)) = Some pc"
    and "fst (ratioTest (tableau_s st) pc M (N + M + 1)) = None"
  shows "iteration N M st = Return \<lparr>optimalValue = None, variableValues = [],
           status = UNBOUNDED, steps = steps_s st\<rparr>"
  using assms by (simp add: iteration_def Let_def)

lemma iteration_Continue:
  assumes "shape (M + 1) (N + M + 1) (tableau_s st)"
    and "fst (scanObjective (tableau_s st ! M) (N + M)) = Some pc"
    and "fst (ratioTest (tableau_s st) pc M (N + M + 1)) = Some pr"
  shows "iteration N M st = Continue
           \<lparr>tableau_s = pivot (tableau_s st) pr pc,
            basicVariables_s = (basicVariables_s st)[pr := pc],
            steps_s = steps_s st @
              [\<lparr>tableau = tableau_s st, pivotRow = Some pr, pivotCol = Some pc,
                basicVariables = basicVariables_s st,
                description = PivotDescription (pr + 1) (pc + 1) (pc + 1)
                  (int (basicVariables_s st ! pr) - int N + 1),
                isOptimal = False\<rparr>]\<rparr>"
proof -
  have "pr < M + 1" using ratioTest_Some [OF assms(3)] by simp
  then show ?thesis
    using assms(2,3) pivot_closed [OF assms(1), of pr pc]
    by (simp add: iteration_def Let_def)
qed

lemma iteration_ContinueE:
  assumes "iteration N M st = Continue st'"
  obtains pc pr where "fst (scanObjective (tableau_s st ! M) (N + M)) = Some pc"
    and "fst (ratioTest (tableau_s st) pc M (N + M + 1)) = Some pr"
  using assms by (auto simp: iteration_def Let_def split: option.splits)

lemma iteration_BreakE:
  assumes "iteration N M st = Break st'"
  shows "fst (scanObjective (tableau_s st ! M) (N + M)) = None"
  using assms by (auto simp: iteration_def Let_def split: option.splits)

lemma iteration_ReturnE:
  assumes "iteration N M st = Return res"
  shows "res = \<lparr>optimalValue = None, variableValues = [], status = UNBOUNDED, steps = steps_s st\<rparr>"
  using assms by (auto simp: iteration_def Let_def split: option.splits)

section \<open>The initial tableau in closed form\<close>

lemma shape_zeroTableau: "shape R C (zeroTableau R C)"
  by (simp add: shape_def zeroTableau_def)

lemma fillConstraint_closed:
  assumes "shape (M + 1) (N + M + 1) t" "i < M"
  shows "fillConstraint N (N + M + 1) cs i (t, bv)
         = (t[i := ((map (jsIndex (coefficients (cs ! i))) [0..<N] @ drop N (t ! i))
                     [N + i := Num 1])[N + M := Num (rhs (cs ! i))]],
            bv @ [N + i])"
proof -
  have len: "i < length t" "length (t ! i) = N + M + 1"
    using assms by (auto simp: shape_def)
  have "fold (\<lambda>j u. setCell u i j (jsIndex (coefficients (cs ! i)) j)) [0..<N] t
        = t[i := map (jsIndex (coefficients (cs ! i))) [0..<N] @ drop N (t ! i)]"
    by (rule fold_setCell_row) (use len in auto)
  then show ?thesis using len by (simp add: fillConstraint_def setCell_def Let_def)
qed

lemma fillConstraints_prefix:
  assumes "k \<le> M"
  shows "fold (fillConstraint N (N + M + 1) cs) [0..<k] (zeroTableau (M + 1) (N + M + 1), [])
         = (map (\<lambda>i. constraintRow N M (cs ! i) i) [0..<k]
              @ replicate (M + 1 - k) (replicate (N + M + 1) (Num 0)),
            map (\<lambda>i. N + i) [0..<k])"
  using assms
proof (induction k)
  case 0
  then show ?case by (simp add: zeroTableau_def)
next
  case (Suc k)
  let ?z = "replicate (N + M + 1) (Num 0)"
  let ?u = "map (\<lambda>i. constraintRow N M (cs ! i) i) [0..<k] @ replicate (M + 1 - k) ?z"
  have k: "k < M" using Suc.prems by simp
  have IH: "fold (fillConstraint N (N + M + 1) cs) [0..<k] (zeroTableau (M + 1) (N + M + 1), [])
            = (?u, map (\<lambda>i. N + i) [0..<k])"
    using Suc by simp
  have lenrow: "\<And>i. length (constraintRow N M (cs ! i) i) = N + M + 1"
    by (simp add: constraintRow_def)
  have shu: "shape (M + 1) (N + M + 1) ?u"
    using k by (auto simp: shape_def nth_append lenrow)
  have uk: "?u ! k = ?z" using k by (simp add: nth_append)
  have dz: "drop N ?z = replicate (M + 1) (Num 0)" by (simp del: replicate_Suc)
  have rep: "replicate (M + 1 - k) ?z = ?z # replicate (M + 1 - Suc k) ?z"
    using k by (simp add: Suc_diff_le replicate_Suc [symmetric] del: replicate_Suc)
  have upd: "?u[k := constraintRow N M (cs ! k) k]
             = map (\<lambda>i. constraintRow N M (cs ! i) i) [0..<Suc k]
               @ replicate (M + 1 - Suc k) ?z"
    by (subst rep) (simp add: list_update_append)
  have row: "((map (jsIndex (coefficients (cs ! k))) [0..<N] @ drop N (?u ! k))
                [N + k := Num 1])[N + M := Num (rhs (cs ! k))] = constraintRow N M (cs ! k) k"
    unfolding uk dz unfolding constraintRow_def ..
  have "fold (fillConstraint N (N + M + 1) cs) [0..<Suc k] (zeroTableau (M + 1) (N + M + 1), [])
        = fillConstraint N (N + M + 1) cs k (?u, map (\<lambda>i. N + i) [0..<k])"
    unfolding IH [symmetric] by simp
  also have "\<dots> = (?u[k := constraintRow N M (cs ! k) k], map (\<lambda>i. N + i) [0..<k] @ [N + k])"
    unfolding fillConstraint_closed [OF shu k] row ..
  also have "\<dots> = (map (\<lambda>i. constraintRow N M (cs ! i) i) [0..<Suc k]
                        @ replicate (M + 1 - Suc k) ?z, map (\<lambda>i. N + i) [0..<Suc k])"
    unfolding upd by simp
  finally show ?case .
qed

lemma fillObjective_closed:
  assumes "shape (M + 1) (N + M + 1) t"
  shows "fillObjective isMin N (M + 1) obj t
         = t[M := map (\<lambda>j. if isMin then jsIndex obj j else num_neg (jsIndex obj j)) [0..<N]
                  @ drop N (t ! M)]"
proof -
  have len: "M < length t" "length (t ! M) = N + M + 1"
    using assms by (auto simp: shape_def)
  have "fold (\<lambda>j u. setCell u M j (if isMin then jsIndex obj j else num_neg (jsIndex obj j)))
          [0..<N] t
        = t[M := map (\<lambda>j. if isMin then jsIndex obj j else num_neg (jsIndex obj j)) [0..<N]
                 @ drop N (t ! M)]"
    by (rule fold_setCell_row) (use len in auto)
  then show ?thesis by (simp add: fillObjective_def Let_def)
qed

lemma initialState_closed:
  "initialState model =
     \<lparr>tableau_s =
        map (\<lambda>i. constraintRow (numVariables model) (length (constraints model))
                   (constraints model ! i) i) [0..<length (constraints model)]
        @ [objectiveRow (type_m model = MINIMIZE) (numVariables model)
             (length (constraints model)) (objectiveCoefficients model)],
      basicVariables_s = map (\<lambda>i. numVariables model + i) [0..<length (constraints model)],
      steps_s = []\<rparr>"
proof -
  let ?N = "numVariables model" and ?cs = "constraints model"
  let ?M = "length ?cs"
  let ?z = "replicate (?N + ?M + 1) (Num 0)"
  let ?rows = "map (\<lambda>i. constraintRow ?N ?M (?cs ! i) i) [0..<?M]"
  have f: "fold (fillConstraint ?N (?N + ?M + 1) ?cs) [0..<?M]
             (zeroTableau (?M + 1) (?N + ?M + 1), [])
           = (?rows @ [?z], map (\<lambda>i. ?N + i) [0..<?M])"
    using fillConstraints_prefix [of ?M ?M ?N ?cs] by simp
  have sh: "shape (?M + 1) (?N + ?M + 1) (?rows @ [?z])"
    by (auto simp: shape_def nth_append constraintRow_def less_Suc_eq)
  have nthM: "(?rows @ [?z]) ! ?M = ?z" by (simp add: nth_append)
  have dz: "drop ?N ?z = replicate (?M + 1) (Num 0)" by (simp del: replicate_Suc)
  have upd: "\<And>r. (?rows @ [?z])[?M := r] = ?rows @ [r]" by (simp add: list_update_append)
  have "fillObjective (type_m model = MINIMIZE) ?N (?M + 1) (objectiveCoefficients model)
          (?rows @ [?z])
        = ?rows @ [objectiveRow (type_m model = MINIMIZE) ?N ?M (objectiveCoefficients model)]"
    unfolding fillObjective_closed [OF sh] nthM dz upd objectiveRow_def ..
  then show ?thesis unfolding initialState_def Let_def f fst_conv snd_conv by simp
qed

section \<open>The initial tableau\<close>

lemma num_neg_num_neg: "num_neg (num_neg x) = x"
  by (cases x) auto

lemma length_constraintRow: "length (constraintRow N M c i) = N + M + 1"
  by (simp add: constraintRow_def)

lemma length_objectiveRow: "length (objectiveRow isMin N M obj) = N + M + 1"
  by (simp add: objectiveRow_def)

lemma constraintRow_nth:
  assumes "i < M" "j < N + M + 1"
  shows "constraintRow N M c i ! j =
           (if j < N then jsIndex (coefficients c) j
            else if j = N + M then Num (rhs c)
            else if j = N + i then Num 1 else Num 0)"
  using assms by (auto simp: constraintRow_def nth_list_update nth_append simp del: replicate_Suc)

lemma objectiveRow_nth:
  assumes "j < N + M + 1"
  shows "objectiveRow isMin N M obj ! j =
           (if j < N then (if isMin then jsIndex obj j else num_neg (jsIndex obj j)) else Num 0)"
  using assms by (auto simp: objectiveRow_def nth_append simp del: replicate_Suc)

lemma initial_row:
  assumes "i < length (constraints model)"
  shows "tableau_s (initialState model) ! i
         = constraintRow (numVariables model) (length (constraints model)) (constraints model ! i) i"
  using assms by (simp add: initialState_closed nth_append)

lemma initial_objective_row:
  "tableau_s (initialState model) ! length (constraints model)
   = objectiveRow (type_m model = MINIMIZE) (numVariables model) (length (constraints model))
       (objectiveCoefficients model)"
  by (simp add: initialState_closed nth_append)

lemma initial_shape:
  "shape (length (constraints model) + 1) (numVariables model + length (constraints model) + 1)
     (tableau_s (initialState model))"
  by (auto simp: shape_def initialState_closed nth_append less_Suc_eq
      length_constraintRow length_objectiveRow)

text \<open>
  C4. For a model with \<open>N\<close> variables and \<open>M\<close> constraints the initial tableau has
  \<open>M + 1\<close> rows of \<open>N + M + 1\<close> cells. Constraint row \<open>i\<close> holds \<open>coefficients[j]\<close> of the
  \<open>i\<close>-th constraint in column \<open>j < N\<close>, \<open>1\<close> in slack column \<open>N + i\<close>, \<open>0\<close> in the other
  slack columns and the right-hand side in the last column. The objective row holds in
  column \<open>j < N\<close> the negation of the objective coefficient after the sign flip of a
  minimisation, \<open>0\<close> in the slack columns and \<open>0\<close> as right-hand side. The initial basis
  gives slack column \<open>N + i\<close> to row \<open>i\<close>.
\<close>

theorem initial_tableau_layout:
  "let N = numVariables model; cs = constraints model; M = length cs;
       obj = objectiveCoefficients model;
       t = tableau_s (initialState model); bv = basicVariables_s (initialState model)
   in length t = M + 1 \<and> (\<forall>i<M + 1. length (t ! i) = N + M + 1) \<and>
      (\<forall>i<M. (\<forall>j<N. t ! i ! j = jsIndex (coefficients (cs ! i)) j) \<and>
              (\<forall>k<M. t ! i ! (N + k) = Num (if k = i then 1 else 0)) \<and>
              t ! i ! (N + M) = Num (rhs (cs ! i))) \<and>
      (\<forall>j<N. t ! M ! j =
          num_neg (if type_m model = MINIMIZE then num_neg (jsIndex obj j) else jsIndex obj j)) \<and>
      (\<forall>k<M. t ! M ! (N + k) = Num 0) \<and> t ! M ! (N + M) = Num 0 \<and>
      length bv = M \<and> (\<forall>i<M. bv ! i = N + i)"
proof -
  have sh: "shape (length (constraints model) + 1)
              (numVariables model + length (constraints model) + 1)
              (tableau_s (initialState model))"
    by (rule initial_shape)
  have bv: "basicVariables_s (initialState model)
            = map (\<lambda>i. numVariables model + i) [0..<length (constraints model)]"
    by (simp add: initialState_closed)
  show ?thesis
    unfolding Let_def
    using sh
    by (simp add: shape_def bv initial_row initial_objective_row constraintRow_nth
        objectiveRow_nth num_neg_num_neg)
qed

theorem initial_tableau_layout_witness:
  "length (tableau_s (initialState exampleModel)) = 3 \<and>
   length (tableau_s (initialState exampleModel) ! 2) = 5 \<and>
   tableau_s (initialState exampleModel) ! 1 ! 0 = Num 2 \<and>
   tableau_s (initialState exampleModel) ! 1 ! 1 = Num 4 \<and>
   tableau_s (initialState exampleModel) ! 1 ! 2 = Num 0 \<and>
   tableau_s (initialState exampleModel) ! 1 ! 3 = Num 1 \<and>
   tableau_s (initialState exampleModel) ! 1 ! 4 = Num 120 \<and>
   tableau_s (initialState exampleModel) ! 2 ! 0 = Num (- 10) \<and>
   tableau_s (initialState exampleModel) ! 2 ! 1 = Num (- 20) \<and>
   tableau_s (initialState exampleModel) ! 2 ! 3 = Num 0 \<and>
   tableau_s (initialState exampleModel) ! 2 ! 4 = Num 0 \<and>
   basicVariables_s (initialState exampleModel) ! 1 = 3"
  using initial_tableau_layout [of exampleModel]
  by (simp add: Let_def exampleModel_def jsIndex_def eval_nat_numeral All_less_Suc)

section \<open>The loop and the states it goes through\<close>

lemma whileLoop_Continue:
  assumes "iteration N M st = Continue st'" "k < maxIterations"
  shows "whileLoop N M k st = whileLoop N M (Suc k) st'"
  using assms by (subst whileLoop.simps) simp

lemma whileLoop_Break:
  assumes "iteration N M st = Break st'" "k < maxIterations"
  shows "whileLoop N M k st = Inr st'"
  using assms by (subst whileLoop.simps) simp

lemma whileLoop_Return:
  assumes "iteration N M st = Return res" "k < maxIterations"
  shows "whileLoop N M k st = Inl res"
  using assms by (subst whileLoop.simps) simp

lemma whileLoop_ceiling:
  assumes "maxIterations \<le> k"
  shows "whileLoop N M k st = Inr st"
  using assms by (subst whileLoop.simps) simp

lemma whileLoop_stateAfter:
  assumes "stateAfter model n = Some st" "n \<le> maxIterations"
  shows "whileLoop (numVariables model) (length (constraints model)) 0 (initialState model)
         = whileLoop (numVariables model) (length (constraints model)) n st"
  using assms
proof (induction n arbitrary: st)
  case 0
  then show ?case by simp
next
  case (Suc n)
  from Suc.prems(1) obtain st0 where st0: "stateAfter model n = Some st0"
    and it: "iteration (numVariables model) (length (constraints model)) st0 = Continue st"
    by (auto split: option.splits Outcome.splits)
  have "whileLoop (numVariables model) (length (constraints model)) 0 (initialState model)
        = whileLoop (numVariables model) (length (constraints model)) n st0"
    using Suc.IH [OF st0] Suc.prems(2) by simp
  also have "\<dots> = whileLoop (numVariables model) (length (constraints model)) (Suc n) st"
    using whileLoop_Continue [OF it] Suc.prems(2) by simp
  finally show ?case .
qed

text \<open>
  C1. When an iteration of the loop finds no constraint row with a strictly positive entry
  in the entering column that it has chosen, \<open>solveSimplex\<close> returns at once: status
  \<open>UNBOUNDED\<close>, \<open>optimalValue\<close> null, no variable values, and as trace the steps recorded
  before that iteration, with nothing appended for it.
\<close>

theorem unbounded_returns_trace_so_far:
  assumes "stateAfter model n = Some st" and "n < maxIterations"
    and "fst (scanObjective (tableau_s st ! length (constraints model))
                (numVariables model + length (constraints model))) = Some pc"
    and "\<forall>i<length (constraints model). \<not> num_gt (tableau_s st ! i ! pc) (Num 0)"
  shows "solveSimplex model =
           \<lparr>optimalValue = None, variableValues = [], status = UNBOUNDED, steps = steps_s st\<rparr>"
proof -
  let ?N = "numVariables model" and ?M = "length (constraints model)"
  have "fst (ratioTest (tableau_s st) pc ?M (?N + ?M + 1)) = None"
    using assms(4) by (rule ratioTest_no_positive)
  then have "iteration ?N ?M st = Return \<lparr>optimalValue = None, variableValues = [],
               status = UNBOUNDED, steps = steps_s st\<rparr>"
    using assms(3) by (rule iteration_Return [rotated])
  then have "whileLoop ?N ?M n st = Inl \<lparr>optimalValue = None, variableValues = [],
               status = UNBOUNDED, steps = steps_s st\<rparr>"
    using assms(2) by (rule whileLoop_Return)
  then show ?thesis
    using whileLoop_stateAfter [OF assms(1)] assms(2) by (simp add: solveSimplex_def Let_def)
qed

lemma initial_unbounded:
  "initialState unboundedModel =
     \<lparr>tableau_s = [[Num 1, Num (- 1), Num 1, Num 1], [Num (- 1), Num (- 1), Num 0, Num 0]],
      basicVariables_s = [2], steps_s = []\<rparr>"
  by (simp add: initialState_closed unboundedModel_def constraintRow_def objectiveRow_def
      jsIndex_def upt_conv_Cons eval_nat_numeral)

lemma first_iteration_unbounded:
  "iteration 2 1
     \<lparr>tableau_s = [[Num 1, Num (- 1), Num 1, Num 1], [Num (- 1), Num (- 1), Num 0, Num 0]],
      basicVariables_s = [2], steps_s = []\<rparr>
   = Continue
     \<lparr>tableau_s = [[Num 1, Num (- 1), Num 1, Num 1], [Num 0, Num (- 2), Num 1, Num 1]],
      basicVariables_s = [0],
      steps_s =
        [\<lparr>tableau = [[Num 1, Num (- 1), Num 1, Num 1], [Num (- 1), Num (- 1), Num 0, Num 0]],
          pivotRow = Some 0, pivotCol = Some 0, basicVariables = [2],
          description = PivotDescription 1 1 1 1, isOptimal = False\<rparr>]\<rparr>"
proof -
  let ?t = "[[Num 1, Num (- 1), Num 1, Num 1], [Num (- 1), Num (- 1), Num 0, Num 0]]"
  let ?st = "\<lparr>tableau_s = ?t, basicVariables_s = [2], steps_s = []\<rparr>"
  have sh: "shape (1 + 1) (2 + 1 + 1) (tableau_s ?st)"
    by (simp add: shape_def All_less_Suc eval_nat_numeral)
  have sc: "fst (scanObjective (tableau_s ?st ! 1) (2 + 1)) = Some 0"
    by (simp add: scanObjective_def upt_conv_Cons eval_nat_numeral)
  have rt: "fst (ratioTest (tableau_s ?st) 0 1 (2 + 1 + 1)) = Some 0"
    by (simp add: ratioTest_def upt_conv_Cons eval_nat_numeral)
  have pv: "pivot ?t 0 0 = [[Num 1, Num (- 1), Num 1, Num 1], [Num 0, Num (- 2), Num 1, Num 1]]"
    by (simp add: pivot_def upt_conv_Cons eval_nat_numeral)
  show ?thesis
    using iteration_Continue [OF sh sc rt] by (simp add: pv)
qed

theorem unbounded_returns_trace_so_far_witness:
  "solveSimplex unboundedModel =
     \<lparr>optimalValue = None, variableValues = [], status = UNBOUNDED,
      steps =
        [\<lparr>tableau = [[Num 1, Num (- 1), Num 1, Num 1], [Num (- 1), Num (- 1), Num 0, Num 0]],
          pivotRow = Some 0, pivotCol = Some 0, basicVariables = [2],
          description = PivotDescription 1 1 1 1, isOptimal = False\<rparr>]\<rparr>"
proof -
  let ?st = "\<lparr>tableau_s = [[Num 1, Num (- 1), Num 1, Num 1], [Num 0, Num (- 2), Num 1, Num 1]],
      basicVariables_s = [0],
      steps_s =
        [\<lparr>tableau = [[Num 1, Num (- 1), Num 1, Num 1], [Num (- 1), Num (- 1), Num 0, Num 0]],
          pivotRow = Some 0, pivotCol = Some 0, basicVariables = [2],
          description = PivotDescription 1 1 1 1, isOptimal = False\<rparr>]\<rparr>"
  have N: "numVariables unboundedModel = 2" "length (constraints unboundedModel) = 1"
    by (simp_all add: unboundedModel_def)
  have a: "stateAfter unboundedModel 1 = Some ?st"
    using first_iteration_unbounded by (simp add: initial_unbounded N)
  have b: "(1::nat) < maxIterations" by (simp add: maxIterations_def)
  have c: "fst (scanObjective (tableau_s ?st ! length (constraints unboundedModel))
                (numVariables unboundedModel + length (constraints unboundedModel))) = Some 1"
    by (simp add: N scanObjective_def upt_conv_Cons eval_nat_numeral)
  have d: "\<forall>i<length (constraints unboundedModel). \<not> num_gt (tableau_s ?st ! i ! 1) (Num 0)"
    by (simp add: N)
  show ?thesis
    using unbounded_returns_trace_so_far [OF a b c d] by simp
qed

section \<open>The invariant of the basis\<close>

lemma basisInv_initial: "basisInv (numVariables model) (length (constraints model)) (initialState model)"
proof -
  let ?N = "numVariables model" and ?M = "length (constraints model)"
  have bv: "basicVariables_s (initialState model) = map (\<lambda>i. ?N + i) [0..<?M]"
    by (simp add: initialState_closed)
  have d: "distinct (map (\<lambda>i. ?N + i) [0..<?M])"
    by (simp add: distinct_map inj_on_def)
  have cells: "\<forall>i<?M. \<forall>k<?M + 1.
      tableau_s (initialState model) ! k ! (?N + i) = Num (if k = i then 1 else 0)"
  proof (intro allI impI)
    fix i k assume i: "i < ?M" and k: "k < ?M + 1"
    show "tableau_s (initialState model) ! k ! (?N + i) = Num (if k = i then 1 else 0)"
    proof (cases "k < ?M")
      case True
      then show ?thesis using i by (simp add: initial_row constraintRow_nth)
    next
      case False
      then have "k = ?M" using k by simp
      then show ?thesis using i by (simp add: initial_objective_row objectiveRow_nth)
    qed
  qed
  show ?thesis
    unfolding basisInv_def Let_def bv
    using initial_shape [of model] d cells by (simp add: initialState_closed)
qed

lemma num_div_self: "0 < q \<Longrightarrow> num_div (Num q) (Num q) = Num 1"
  by simp

lemma eliminate_entering:
  "num_sub x (num_mul x (Num 1)) = NaN \<or> num_sub x (num_mul x (Num 1)) = Num 0"
  by (cases x) auto

lemma normalize_zero:
  assumes "y = NaN \<or> y = Num 0" "0 < q"
  shows "num_div y (Num q) = NaN \<or> num_div y (Num q) = Num 0"
  using assms by auto

lemma eliminate_basic:
  assumes "y = NaN \<or> y = Num 0" "x = NaN \<or> x = Num v" "0 < q"
  shows "num_sub x (num_mul f (num_div y (Num q))) = NaN
         \<or> num_sub x (num_mul f (num_div y (Num q))) = Num v"
  using assms by (cases f) auto

lemma basisInv_step:
  assumes inv: "basisInv N M st" and it: "iteration N M st = Continue st'"
  shows "basisInv N M st'"
proof -
  let ?t = "tableau_s st" and ?bv = "basicVariables_s st"
  from it obtain pc pr where sc: "fst (scanObjective (?t ! M) (N + M)) = Some pc"
    and rt: "fst (ratioTest ?t pc M (N + M + 1)) = Some pr"
    by (rule iteration_ContinueE)
  have sh: "shape (M + 1) (N + M + 1) ?t" and len: "length ?bv = M" and dist: "distinct ?bv"
    and rng: "\<And>i. i < M \<Longrightarrow> ?bv ! i < N + M"
    and unit: "\<And>i k. i < M \<Longrightarrow> k < M + 1 \<Longrightarrow>
        ?t ! k ! (?bv ! i) = NaN \<or> ?t ! k ! (?bv ! i) = Num (if k = i then 1 else 0)"
    and prov: "\<And>i. i < M \<Longrightarrow>
        ?bv ! i = N + i \<or> (\<exists>s\<in>set (steps_s st). pivotCol s = Some (?bv ! i))"
    using inv by (auto simp: basisInv_def Let_def)
  from scanObjective_Some [OF sc] obtain mv where pc: "pc < N + M"
    and obj: "?t ! M ! pc = Num mv" "mv < 0" by auto
  from ratioTest_Some [OF rt] obtain y where pr: "pr < M"
    and cand: "candidate ?t pc (N + M + 1 - 1) pr y" by auto
  then obtain q where q: "?t ! pr ! pc = Num q" "0 < q" by (auto simp: candidate_def)
  have st': "st' = \<lparr>tableau_s = pivot ?t pr pc, basicVariables_s = ?bv[pr := pc],
      steps_s = steps_s st @
        [\<lparr>tableau = ?t, pivotRow = Some pr, pivotCol = Some pc, basicVariables = ?bv,
          description = PivotDescription (pr + 1) (pc + 1) (pc + 1) (int (?bv ! pr) - int N + 1),
          isOptimal = False\<rparr>]\<rparr>"
    using iteration_Continue [OF sh sc rt] it by simp
  have notin: "pc \<notin> set ?bv"
  proof
    assume "pc \<in> set ?bv"
    then obtain i where i: "i < M" "?bv ! i = pc" using len by (auto simp: in_set_conv_nth)
    then show False using unit [of i M] obj by auto
  qed
  have dist': "distinct (?bv[pr := pc])"
    using dist notin by (simp add: distinct_list_update)
  have cell: "\<And>k j. k < M + 1 \<Longrightarrow> j < N + M + 1 \<Longrightarrow>
      pivot ?t pr pc ! k ! j =
        (if k = pr then num_div (?t ! pr ! j) (Num q)
         else num_sub (?t ! k ! j) (num_mul (?t ! k ! pc) (num_div (?t ! pr ! j) (Num q))))"
    using pivot_nth [OF sh, of pr _ _ pc] pr q by simp
  have unit': "?bv[pr := pc] ! i < N + M \<and>
      (pivot ?t pr pc ! k ! (?bv[pr := pc] ! i) = NaN \<or>
       pivot ?t pr pc ! k ! (?bv[pr := pc] ! i) = Num (if k = i then 1 else 0))"
    if i: "i < M" and k: "k < M + 1" for i k
  proof (cases "i = pr")
    case True
    then have b: "?bv[pr := pc] ! i = pc" using pr len by simp
    show ?thesis
    proof (cases "k = pr")
      case True
      then show ?thesis using b \<open>i = pr\<close> cell [OF k, of pc] pc q by simp
    next
      case False
      then show ?thesis
        using b \<open>i = pr\<close> cell [OF k, of pc] pc q eliminate_entering [of "?t ! k ! pc"] by simp
    qed
  next
    case False
    then have b: "?bv[pr := pc] ! i = ?bv ! i" by simp
    have j: "?bv ! i < N + M + 1" using rng [OF i] by simp
    have z: "?t ! pr ! (?bv ! i) = NaN \<or> ?t ! pr ! (?bv ! i) = Num 0"
      using unit [OF i, of pr] pr False by auto
    show ?thesis
    proof (cases "k = pr")
      case True
      then show ?thesis
        using b False cell [OF k j] normalize_zero [OF z q(2)] rng [OF i] by auto
    next
      case False
      then show ?thesis
        using b cell [OF k j] eliminate_basic [OF z unit [OF i k] q(2), of "?t ! k ! pc"] rng [OF i]
        by simp
    qed
  qed
  have prov': "?bv[pr := pc] ! i = N + i \<or>
      (\<exists>s\<in>set (steps_s st'). pivotCol s = Some (?bv[pr := pc] ! i))" if i: "i < M" for i
  proof (cases "i = pr")
    case True
    then show ?thesis using pr len by (simp add: st')
  next
    case False
    then show ?thesis using prov [OF i] by (auto simp: st')
  qed
  have rng': "\<And>i. i < M \<Longrightarrow> ?bv[pr := pc] ! i < N + M"
    using unit' [of _ 0] by simp
  have cells': "\<And>i k. i < M \<Longrightarrow> k < M + 1 \<Longrightarrow>
      pivot ?t pr pc ! k ! (?bv[pr := pc] ! i) = NaN \<or>
      pivot ?t pr pc ! k ! (?bv[pr := pc] ! i) = Num (if k = i then 1 else 0)"
    using unit' by blast
  show ?thesis
    unfolding basisInv_def Let_def st'
    using shape_pivot [OF sh, of pr pc] pr len dist' rng' cells' prov' [unfolded st']
    by simp
qed

lemma basisInv_stateAfter:
  assumes "stateAfter model n = Some st"
  shows "basisInv (numVariables model) (length (constraints model)) st"
  using assms
proof (induction n arbitrary: st)
  case 0
  then show ?case using basisInv_initial [of model] by auto
next
  case (Suc n)
  from Suc.prems obtain st0 where "stateAfter model n = Some st0"
    and "iteration (numVariables model) (length (constraints model)) st0 = Continue st"
    by (auto split: option.splits Outcome.splits)
  then show ?case using Suc.IH basisInv_step by blast
qed

section \<open>The run on the example model\<close>

lemmas eval_upt = upt_conv_Cons eval_nat_numeral

lemma example_sizes:
  "numVariables exampleModel = 2" "length (constraints exampleModel) = 2"
  by (simp_all add: exampleModel_def)

lemma example_initial: "initialState exampleModel = exampleState0"
  by (simp add: initialState_closed exampleModel_def exampleState0_def constraintRow_def
      objectiveRow_def jsIndex_def eval_upt)

lemma example_iteration0: "iteration 2 2 exampleState0 = Continue exampleState1"
proof -
  have sh: "shape (2 + 1) (2 + 2 + 1) (tableau_s exampleState0)"
    by (simp add: exampleState0_def shape_def All_less_Suc eval_nat_numeral)
  have sc: "fst (scanObjective (tableau_s exampleState0 ! 2) (2 + 2)) = Some 1"
    by (simp add: exampleState0_def scanObjective_def eval_upt)
  have rt: "fst (ratioTest (tableau_s exampleState0) 1 2 (2 + 2 + 1)) = Some 1"
    by (simp add: exampleState0_def ratioTest_def eval_upt)
  have pv: "pivot (tableau_s exampleState0) 1 1 = tableau_s exampleState1"
    by (simp add: exampleState0_def exampleState1_def pivot_def eval_upt)
  show ?thesis
    unfolding iteration_Continue [OF sh sc rt] pv
    by (simp add: exampleState0_def exampleState1_def exampleStep1_def)
qed

lemma example_stateAfter1: "stateAfter exampleModel (Suc 0) = Some exampleState1"
  by (simp add: example_sizes example_initial example_iteration0)

section \<open>The optimality test, the entering column and the leaving row\<close>

lemma whileLoop_optimal:
  assumes "stateAfter model n = Some st" "n < maxIterations"
    and "fst (scanObjective (tableau_s st ! length (constraints model))
                (numVariables model + length (constraints model))) = None"
  shows "solveSimplex model =
           extractSolution (type_m model = MINIMIZE) (numVariables model)
             (length (constraints model))
             (st\<lparr>steps_s := steps_s st @
               [\<lparr>tableau = tableau_s st, pivotRow = None, pivotCol = None,
                 basicVariables = basicVariables_s st,
                 description = OptimalDescription, isOptimal = True\<rparr>]\<rparr>)"
  using whileLoop_stateAfter [OF assms(1)] assms(2)
    whileLoop_Break [OF iteration_Break [OF assms(3)] assms(2)]
  by (simp add: solveSimplex_def Let_def)

lemma example_stateAfter0: "stateAfter exampleModel 0 = Some exampleState0"
  by (simp add: example_initial)

lemma example_ceiling: "(0::nat) < maxIterations" "Suc 0 < maxIterations"
  by (simp_all add: maxIterations_def)

section \<open>A model on which the loop reaches its ceiling\<close>

lemma chvatal_sizes:
  "numVariables chvatalModel = 4" "length (constraints chvatalModel) = 3"
  by (simp_all add: chvatalModel_def)

lemma chvatal_initial: "initialState chvatalModel = chvatalState 0 []"
proof -
  have r0: "constraintRow 4 3 \<lparr>id_c = ''c-0'', coefficients = [1 / 2, - (11 / 2), - (5 / 2), 9],
          type_c = LESS_THAN_EQ, rhs = 0\<rparr> 0 = chvatalT0 ! 0"
    by (simp add: constraintRow_def jsIndex_def chvatalT0_def eval_upt)
  have r1: "constraintRow 4 3 \<lparr>id_c = ''c-1'', coefficients = [1 / 2, - (3 / 2), - (1 / 2), 1],
          type_c = LESS_THAN_EQ, rhs = 0\<rparr> (Suc 0) = chvatalT0 ! 1"
    by (simp add: constraintRow_def jsIndex_def chvatalT0_def eval_upt)
  have r2: "constraintRow 4 3 \<lparr>id_c = ''c-2'', coefficients = [1, 0, 0, 0],
          type_c = LESS_THAN_EQ, rhs = 1\<rparr> (Suc (Suc 0)) = chvatalT0 ! 2"
    by (simp add: constraintRow_def jsIndex_def chvatalT0_def eval_upt)
  have ob: "objectiveRow False 4 3 [10, - 57, - 9, - 24] = chvatalT0 ! 3"
    by (simp add: objectiveRow_def jsIndex_def chvatalT0_def eval_upt)
  have "initialState chvatalModel =
      \<lparr>tableau_s = map (\<lambda>i. constraintRow 4 3 (constraints chvatalModel ! i) i) [0..<3]
         @ [objectiveRow (type_m chvatalModel = MINIMIZE) 4 3 (objectiveCoefficients chvatalModel)],
       basicVariables_s = map (\<lambda>i. 4 + i) [0..<3], steps_s = []\<rparr>"
    unfolding initialState_closed chvatal_sizes ..
  also have "\<dots> = \<lparr>tableau_s = [chvatalT0 ! 0, chvatalT0 ! 1, chvatalT0 ! 2, chvatalT0 ! 3],
       basicVariables_s = [4, 5, 6], steps_s = []\<rparr>"
    by (simp add: chvatalModel_def upt_conv_Cons r0 r1 r2 ob)
  also have "[chvatalT0 ! 0, chvatalT0 ! 1, chvatalT0 ! 2, chvatalT0 ! 3] = chvatalT0"
    by (simp add: chvatalT0_def)
  finally show ?thesis
    by (simp add: chvatalState_def chvatalTableaus_def chvatalBases_def)
qed

lemma chvatal_pivot0:
  "iteration 4 3 \<lparr>tableau_s = chvatalT0, basicVariables_s = [4, 5, 6], steps_s = ss\<rparr>
   = Continue
       \<lparr>tableau_s = chvatalT1, basicVariables_s = [0, 5, 6],
        steps_s = ss @
          [\<lparr>tableau = chvatalT0, pivotRow = Some 0, pivotCol = Some 0,
            basicVariables = [4, 5, 6],
            description = PivotDescription 1 1 1 (1), isOptimal = False\<rparr>]\<rparr>"
proof -
  let ?st = "\<lparr>tableau_s = chvatalT0, basicVariables_s = [4, 5, 6], steps_s = ss\<rparr>"
  have sh: "shape (3 + 1) (4 + 3 + 1) (tableau_s ?st)"
    by (simp add: chvatalT0_def shape_def All_less_Suc eval_nat_numeral)
  have sc: "fst (scanObjective (tableau_s ?st ! 3) (4 + 3)) = Some 0"
    by (simp add: chvatalT0_def scanObjective_def eval_upt)
  have rt: "fst (ratioTest (tableau_s ?st) 0 3 (4 + 3 + 1)) = Some 0"
    by (simp add: chvatalT0_def ratioTest_def eval_upt)
  have pv: "pivot (tableau_s ?st) 0 0 = chvatalT1"
    by (simp add: chvatalT0_def chvatalT1_def pivot_def eval_upt)
  show ?thesis
    unfolding iteration_Continue [OF sh sc rt] pv by simp
qed

lemma chvatal_pivot1:
  "iteration 4 3 \<lparr>tableau_s = chvatalT1, basicVariables_s = [0, 5, 6], steps_s = ss\<rparr>
   = Continue
       \<lparr>tableau_s = chvatalT2, basicVariables_s = [0, 1, 6],
        steps_s = ss @
          [\<lparr>tableau = chvatalT1, pivotRow = Some 1, pivotCol = Some 1,
            basicVariables = [0, 5, 6],
            description = PivotDescription 2 2 2 (2), isOptimal = False\<rparr>]\<rparr>"
proof -
  let ?st = "\<lparr>tableau_s = chvatalT1, basicVariables_s = [0, 5, 6], steps_s = ss\<rparr>"
  have sh: "shape (3 + 1) (4 + 3 + 1) (tableau_s ?st)"
    by (simp add: chvatalT1_def shape_def All_less_Suc eval_nat_numeral)
  have sc: "fst (scanObjective (tableau_s ?st ! 3) (4 + 3)) = Some 1"
    by (simp add: chvatalT1_def scanObjective_def eval_upt)
  have rt: "fst (ratioTest (tableau_s ?st) 1 3 (4 + 3 + 1)) = Some 1"
    by (simp add: chvatalT1_def ratioTest_def eval_upt)
  have pv: "pivot (tableau_s ?st) 1 1 = chvatalT2"
    by (simp add: chvatalT1_def chvatalT2_def pivot_def eval_upt)
  show ?thesis
    unfolding iteration_Continue [OF sh sc rt] pv by simp
qed

lemma chvatal_pivot2:
  "iteration 4 3 \<lparr>tableau_s = chvatalT2, basicVariables_s = [0, 1, 6], steps_s = ss\<rparr>
   = Continue
       \<lparr>tableau_s = chvatalT3, basicVariables_s = [2, 1, 6],
        steps_s = ss @
          [\<lparr>tableau = chvatalT2, pivotRow = Some 0, pivotCol = Some 2,
            basicVariables = [0, 1, 6],
            description = PivotDescription 1 3 3 (- 3), isOptimal = False\<rparr>]\<rparr>"
proof -
  let ?st = "\<lparr>tableau_s = chvatalT2, basicVariables_s = [0, 1, 6], steps_s = ss\<rparr>"
  have sh: "shape (3 + 1) (4 + 3 + 1) (tableau_s ?st)"
    by (simp add: chvatalT2_def shape_def All_less_Suc eval_nat_numeral)
  have sc: "fst (scanObjective (tableau_s ?st ! 3) (4 + 3)) = Some 2"
    by (simp add: chvatalT2_def scanObjective_def eval_upt)
  have rt: "fst (ratioTest (tableau_s ?st) 2 3 (4 + 3 + 1)) = Some 0"
    by (simp add: chvatalT2_def ratioTest_def eval_upt)
  have pv: "pivot (tableau_s ?st) 0 2 = chvatalT3"
    by (simp add: chvatalT2_def chvatalT3_def pivot_def eval_upt)
  show ?thesis
    unfolding iteration_Continue [OF sh sc rt] pv by simp
qed

lemma chvatal_pivot3:
  "iteration 4 3 \<lparr>tableau_s = chvatalT3, basicVariables_s = [2, 1, 6], steps_s = ss\<rparr>
   = Continue
       \<lparr>tableau_s = chvatalT4, basicVariables_s = [2, 3, 6],
        steps_s = ss @
          [\<lparr>tableau = chvatalT3, pivotRow = Some 1, pivotCol = Some 3,
            basicVariables = [2, 1, 6],
            description = PivotDescription 2 4 4 (- 2), isOptimal = False\<rparr>]\<rparr>"
proof -
  let ?st = "\<lparr>tableau_s = chvatalT3, basicVariables_s = [2, 1, 6], steps_s = ss\<rparr>"
  have sh: "shape (3 + 1) (4 + 3 + 1) (tableau_s ?st)"
    by (simp add: chvatalT3_def shape_def All_less_Suc eval_nat_numeral)
  have sc: "fst (scanObjective (tableau_s ?st ! 3) (4 + 3)) = Some 3"
    by (simp add: chvatalT3_def scanObjective_def eval_upt)
  have rt: "fst (ratioTest (tableau_s ?st) 3 3 (4 + 3 + 1)) = Some 1"
    by (simp add: chvatalT3_def ratioTest_def eval_upt)
  have pv: "pivot (tableau_s ?st) 1 3 = chvatalT4"
    by (simp add: chvatalT3_def chvatalT4_def pivot_def eval_upt)
  show ?thesis
    unfolding iteration_Continue [OF sh sc rt] pv by simp
qed

lemma chvatal_pivot4:
  "iteration 4 3 \<lparr>tableau_s = chvatalT4, basicVariables_s = [2, 3, 6], steps_s = ss\<rparr>
   = Continue
       \<lparr>tableau_s = chvatalT5, basicVariables_s = [4, 3, 6],
        steps_s = ss @
          [\<lparr>tableau = chvatalT4, pivotRow = Some 0, pivotCol = Some 4,
            basicVariables = [2, 3, 6],
            description = PivotDescription 1 5 5 (- 1), isOptimal = False\<rparr>]\<rparr>"
proof -
  let ?st = "\<lparr>tableau_s = chvatalT4, basicVariables_s = [2, 3, 6], steps_s = ss\<rparr>"
  have sh: "shape (3 + 1) (4 + 3 + 1) (tableau_s ?st)"
    by (simp add: chvatalT4_def shape_def All_less_Suc eval_nat_numeral)
  have sc: "fst (scanObjective (tableau_s ?st ! 3) (4 + 3)) = Some 4"
    by (simp add: chvatalT4_def scanObjective_def eval_upt)
  have rt: "fst (ratioTest (tableau_s ?st) 4 3 (4 + 3 + 1)) = Some 0"
    by (simp add: chvatalT4_def ratioTest_def eval_upt)
  have pv: "pivot (tableau_s ?st) 0 4 = chvatalT5"
    by (simp add: chvatalT4_def chvatalT5_def pivot_def eval_upt)
  show ?thesis
    unfolding iteration_Continue [OF sh sc rt] pv by simp
qed

lemma chvatal_pivot5:
  "iteration 4 3 \<lparr>tableau_s = chvatalT5, basicVariables_s = [4, 3, 6], steps_s = ss\<rparr>
   = Continue
       \<lparr>tableau_s = chvatalT0, basicVariables_s = [4, 5, 6],
        steps_s = ss @
          [\<lparr>tableau = chvatalT5, pivotRow = Some 1, pivotCol = Some 5,
            basicVariables = [4, 3, 6],
            description = PivotDescription 2 6 6 (0), isOptimal = False\<rparr>]\<rparr>"
proof -
  let ?st = "\<lparr>tableau_s = chvatalT5, basicVariables_s = [4, 3, 6], steps_s = ss\<rparr>"
  have sh: "shape (3 + 1) (4 + 3 + 1) (tableau_s ?st)"
    by (simp add: chvatalT5_def shape_def All_less_Suc eval_nat_numeral)
  have sc: "fst (scanObjective (tableau_s ?st ! 3) (4 + 3)) = Some 5"
    by (simp add: chvatalT5_def scanObjective_def eval_upt)
  have rt: "fst (ratioTest (tableau_s ?st) 5 3 (4 + 3 + 1)) = Some 1"
    by (simp add: chvatalT5_def ratioTest_def eval_upt)
  have pv: "pivot (tableau_s ?st) 1 5 = chvatalT0"
    by (simp add: chvatalT5_def chvatalT0_def pivot_def eval_upt)
  show ?thesis
    unfolding iteration_Continue [OF sh sc rt] pv by simp
qed

lemma chvatal_iteration:
  "iteration 4 3 (chvatalState k ss) = Continue (chvatalState (Suc k) (ss @ [chvatalStep k]))"
proof -
  have "k mod 6 < 6" by simp
  then consider "k mod 6 = 0" | "k mod 6 = 1" | "k mod 6 = 2" | "k mod 6 = 3" | "k mod 6 = 4"
    | "k mod 6 = 5"
    by linarith
  then show ?thesis
  proof cases
    case 1
    then have nx: "Suc k mod 6 = 1" by (simp add: mod_Suc)
    show ?thesis
      using chvatal_pivot0 [of ss]
      by (simp add: chvatalState_def chvatalStep_def 1 nx chvatalTableaus_def chvatalBases_def
          chvatalPivots_def)
  next
    case 2
    then have nx: "Suc k mod 6 = 2" by (simp add: mod_Suc)
    show ?thesis
      using chvatal_pivot1 [of ss]
      by (simp add: chvatalState_def chvatalStep_def 2 nx chvatalTableaus_def chvatalBases_def
          chvatalPivots_def)
  next
    case 3
    then have nx: "Suc k mod 6 = 3" by (simp add: mod_Suc)
    show ?thesis
      using chvatal_pivot2 [of ss]
      by (simp add: chvatalState_def chvatalStep_def 3 nx chvatalTableaus_def chvatalBases_def
          chvatalPivots_def)
  next
    case 4
    then have nx: "Suc k mod 6 = 4" by (simp add: mod_Suc)
    show ?thesis
      using chvatal_pivot3 [of ss]
      by (simp add: chvatalState_def chvatalStep_def 4 nx chvatalTableaus_def chvatalBases_def
          chvatalPivots_def)
  next
    case 5
    then have nx: "Suc k mod 6 = 5" by (simp add: mod_Suc)
    show ?thesis
      using chvatal_pivot4 [of ss]
      by (simp add: chvatalState_def chvatalStep_def 5 nx chvatalTableaus_def chvatalBases_def
          chvatalPivots_def)
  next
    case 6
    then have nx: "Suc k mod 6 = 0" by (simp add: mod_Suc)
    show ?thesis
      using chvatal_pivot5 [of ss]
      by (simp add: chvatalState_def chvatalStep_def 6 nx chvatalTableaus_def chvatalBases_def
          chvatalPivots_def)
  qed
qed

lemma chvatal_stateAfter:
  "stateAfter chvatalModel k = Some (chvatalState k (map chvatalStep [0..<k]))"
proof (induction k)
  case 0
  then show ?case by (simp add: chvatal_initial)
next
  case (Suc k)
  then show ?case by (simp add: chvatal_sizes chvatal_iteration)
qed

lemma chvatal_not_optimal: "isOptimal (chvatalStep k) = False"
  by (simp add: chvatalStep_def Let_def)

lemma chvatal_final_state:
  "whileLoop 4 3 0 (initialState chvatalModel)
   = Inr (chvatalState 100 (map chvatalStep [0..<100]))"
proof -
  have "whileLoop 4 3 0 (initialState chvatalModel)
        = whileLoop 4 3 100 (chvatalState 100 (map chvatalStep [0..<100]))"
    using whileLoop_stateAfter [OF chvatal_stateAfter [of 100]]
    by (simp add: chvatal_sizes maxIterations_def)
  also have "\<dots> = Inr (chvatalState 100 (map chvatalStep [0..<100]))"
    by (rule whileLoop_ceiling) (simp add: maxIterations_def)
  finally show ?thesis .
qed

text \<open>
  C2 (what the code does). On \<open>chvatalModel\<close> the loop pivots a hundred times round a
  cycle of six tableaux and leaves at the ceiling; the optimality test still fails on the
  tableau it leaves with (column 4 of the objective row is negative), no recorded step is
  a terminal one, and yet the result has status \<open>OPTIMAL\<close>, value \<open>0\<close> and all variables
  \<open>0\<close>, although the feasible point \<open>(1, 0, 1, 0)\<close> has objective value \<open>1\<close>.
\<close>

theorem ceiling_returned_as_optimal:
  "whileLoop 4 3 0 (initialState chvatalModel)
     = Inr (chvatalState 100 (map chvatalStep [0..<100])) \<and>
   tableau_s (chvatalState 100 (map chvatalStep [0..<100])) ! 3 ! 4 = Num (- (21 / 2)) \<and>
   fst (scanObjective (tableau_s (chvatalState 100 (map chvatalStep [0..<100])) ! 3) 7) = Some 4 \<and>
   status (solveSimplex chvatalModel) = OPTIMAL \<and>
   optimalValue (solveSimplex chvatalModel) = Some (Num 0) \<and>
   variableValues (solveSimplex chvatalModel) = [Num 0, Num 0, Num 0, Num 0] \<and>
   length (steps (solveSimplex chvatalModel)) = 100 \<and>
   map isOptimal (steps (solveSimplex chvatalModel)) = replicate 100 False"
proof -
  let ?st = "chvatalState 100 (map chvatalStep [0..<100])"
  have t: "tableau_s ?st = chvatalT4" and b: "basicVariables_s ?st = [2, 3, 6]"
    by (simp_all add: chvatalState_def chvatalTableaus_def chvatalBases_def)
  have c: "tableau_s ?st ! 3 ! 4 = Num (- (21 / 2))"
    unfolding t by (simp add: chvatalT4_def)
  have sc: "fst (scanObjective (tableau_s ?st ! 3) 7) = Some 4"
    unfolding t by (simp add: chvatalT4_def scanObjective_def eval_upt)
  have mx: "(type_m chvatalModel = MINIMIZE) = False" by (simp add: chvatalModel_def)
  have sol: "solveSimplex chvatalModel = extractSolution False 4 3 ?st"
    unfolding solveSimplex_def Let_def chvatal_sizes chvatal_final_state mx by simp
  have vs: "extractValues 4 3 (4 + 3 + 1) (tableau_s ?st) (basicVariables_s ?st)
            = [Num 0, Num 0, Num 0, Num 0]"
    unfolding t b by (simp add: extractValues_def chvatalT4_def eval_upt)
  have v: "tableau_s ?st ! (3 + 1 - 1) ! (4 + 3 + 1 - 1) = Num 0"
    unfolding t by (simp add: chvatalT4_def)
  have st: "steps_s ?st = map chvatalStep [0..<100]"
    by (simp add: chvatalState_def)
  have res: "solveSimplex chvatalModel =
      \<lparr>optimalValue = Some (Num 0), variableValues = [Num 0, Num 0, Num 0, Num 0],
       status = OPTIMAL, steps = map chvatalStep [0..<100]\<rparr>"
    unfolding sol extractSolution_def Let_def vs v st by simp
  have opt: "map isOptimal (map chvatalStep [0..<100]) = replicate 100 False"
    by (simp add: chvatal_not_optimal comp_def map_replicate_const)
  show ?thesis
    using chvatal_final_state c sc opt by (simp add: res)
qed

lemma chvatal_stateAfter0: "stateAfter chvatalModel 0 = Some (chvatalState 0 [])"
  by (simp add: chvatal_initial)

lemma chvatal_iteration0:
  "iteration (numVariables chvatalModel) (length (constraints chvatalModel)) (chvatalState 0 [])
   = Continue (chvatalState 1 [chvatalStep 0])"
  unfolding chvatal_sizes using chvatal_iteration [of 0 "[]"] by simp

section \<open>Reading the solution off the final tableau\<close>

lemma extractValues_Suc:
  "fold (\<lambda>i vs. let basicVarIndex = bv ! i
                  in if basicVarIndex < N then vs[basicVarIndex := t ! i ! lc] else vs)
        [0..<Suc k] vs0
   = (let vs = fold (\<lambda>i vs. let basicVarIndex = bv ! i
                      in if basicVarIndex < N then vs[basicVarIndex := t ! i ! lc] else vs)
                 [0..<k] vs0
      in if bv ! k < N then vs[bv ! k := t ! k ! lc] else vs)"
  by (simp add: Let_def)

lemma extractValues_prefix:
  assumes "distinct bv" "k \<le> length bv"
  shows "let vs = fold (\<lambda>i vs. let basicVarIndex = bv ! i
                          in if basicVarIndex < N then vs[basicVarIndex := t ! i ! lc] else vs)
                    [0..<k] (replicate N (Num 0))
         in length vs = N \<and>
            (\<forall>i<k. bv ! i < N \<longrightarrow> vs ! (bv ! i) = t ! i ! lc) \<and>
            (\<forall>j<N. j \<notin> set (take k bv) \<longrightarrow> vs ! j = Num 0)"
  using assms(2)
proof (induction k)
  case 0
  then show ?case by simp
next
  case (Suc k)
  let ?f = "\<lambda>i vs. let basicVarIndex = bv ! i
              in if basicVarIndex < N then vs[basicVarIndex := t ! i ! lc] else vs"
  let ?vs = "fold ?f [0..<k] (replicate N (Num 0))"
  have k: "k < length bv" using Suc.prems by simp
  have IH: "length ?vs = N" "\<And>i. i < k \<Longrightarrow> bv ! i < N \<Longrightarrow> ?vs ! (bv ! i) = t ! i ! lc"
    "\<And>j. j < N \<Longrightarrow> j \<notin> set (take k bv) \<Longrightarrow> ?vs ! j = Num 0"
    using Suc.IH k by (simp_all add: Let_def)
  have tk: "take (Suc k) bv = take k bv @ [bv ! k]"
    using k by (simp add: take_Suc_conv_app_nth)
  have ne: "\<And>i. i < k \<Longrightarrow> bv ! i \<noteq> bv ! k"
    using assms(1) k by (simp add: nth_eq_iff_index_eq)
  show ?case
  proof (cases "bv ! k < N")
    case True
    have "fold ?f [0..<Suc k] (replicate N (Num 0)) = ?vs[bv ! k := t ! k ! lc]"
      using True by (simp add: Let_def)
    moreover have "length (?vs[bv ! k := t ! k ! lc]) = N" using IH(1) by simp
    moreover have "\<forall>i<Suc k. bv ! i < N \<longrightarrow> ?vs[bv ! k := t ! k ! lc] ! (bv ! i) = t ! i ! lc"
    proof (intro allI impI)
      fix i assume i: "i < Suc k" "bv ! i < N"
      show "?vs[bv ! k := t ! k ! lc] ! (bv ! i) = t ! i ! lc"
      proof (cases "i = k")
        case True
        then show ?thesis using IH(1) i(2) by simp
      next
        case False
        then have "i < k" using i(1) by simp
        then show ?thesis using IH(2) [OF \<open>i < k\<close> i(2)] ne [OF \<open>i < k\<close>] by simp
      qed
    qed
    moreover have "\<forall>j<N. j \<notin> set (take (Suc k) bv) \<longrightarrow> ?vs[bv ! k := t ! k ! lc] ! j = Num 0"
      using IH(1,3) by (auto simp: tk nth_list_update)
    ultimately show ?thesis by (simp only: Let_def) 
  next
    case False
    have "fold ?f [0..<Suc k] (replicate N (Num 0)) = ?vs"
      using False by (simp add: Let_def)
    moreover have "\<forall>i<Suc k. bv ! i < N \<longrightarrow> ?vs ! (bv ! i) = t ! i ! lc"
      using IH(2) False by (auto simp: less_Suc_eq)
    moreover have "\<forall>j<N. j \<notin> set (take (Suc k) bv) \<longrightarrow> ?vs ! j = Num 0"
      using IH(3) by (auto simp: tk)
    ultimately show ?thesis using IH(1) by (simp only: Let_def)
  qed
qed

lemma extractValues_correct:
  assumes "distinct bv" "length bv = M"
  shows "length (extractValues N M C t bv) = N"
    and "\<And>i. i < M \<Longrightarrow> bv ! i < N \<Longrightarrow> extractValues N M C t bv ! (bv ! i) = t ! i ! (C - 1)"
    and "\<And>j. j < N \<Longrightarrow> j \<notin> set bv \<Longrightarrow> extractValues N M C t bv ! j = Num 0"
  using extractValues_prefix [OF assms(1), of M N t "C - 1"] assms(2)
  by (simp_all add: extractValues_def Let_def)

lemma basisInv_steps:
  assumes "basisInv N M st" "tableau_s st' = tableau_s st"
    "basicVariables_s st' = basicVariables_s st" "set (steps_s st) \<subseteq> set (steps_s st')"
  shows "basisInv N M st'"
proof -
  have "\<And>i. i < M \<Longrightarrow> basicVariables_s st ! i = N + i \<or>
      (\<exists>s\<in>set (steps_s st'). pivotCol s = Some (basicVariables_s st ! i))"
    using assms(1,4) unfolding basisInv_def Let_def by blast
  then show ?thesis
    using assms(1) unfolding basisInv_def Let_def assms(2,3) by simp
qed

lemma whileLoop_basisInv:
  assumes "basisInv N M st" "whileLoop N M k st = Inr st'"
  shows "basisInv N M st'"
  using assms
proof (induction N M k st rule: whileLoop.induct)
  case (1 N M k st)
  show ?case
  proof (cases "k < maxIterations")
    case False
    then show ?thesis using "1.prems" whileLoop_ceiling [of k N M st] by simp
  next
    case True
    show ?thesis
    proof (cases "iteration N M st")
      case (Continue st1)
      then show ?thesis
        using "1.IH" [OF True Continue] "1.prems" basisInv_step [OF "1.prems"(1) Continue]
          whileLoop_Continue [OF Continue True]
        by simp
    next
      case (Break st1)
      have "fst (scanObjective (tableau_s st ! M) (N + M)) = None"
        using Break by (rule iteration_BreakE)
      then have "st1 = st\<lparr>steps_s := steps_s st @
               [\<lparr>tableau = tableau_s st, pivotRow = None, pivotCol = None,
                 basicVariables = basicVariables_s st,
                 description = OptimalDescription, isOptimal = True\<rparr>]\<rparr>"
        using iteration_Break [of st M N] Break by simp
      moreover have "st' = st1" using whileLoop_Break [OF Break True] "1.prems"(2) by simp
      ultimately have "tableau_s st' = tableau_s st" "basicVariables_s st' = basicVariables_s st"
        "set (steps_s st) \<subseteq> set (steps_s st')"
        by auto
      then show ?thesis by (rule basisInv_steps [OF "1.prems"(1)])
    next
      case (Return res)
      then show ?thesis using whileLoop_Return [OF Return True] "1.prems"(2) by simp
    qed
  qed
qed

lemma whileLoop_Inl:
  assumes "whileLoop N M k st = Inl res"
  shows "status res = UNBOUNDED"
  using assms
proof (induction N M k st rule: whileLoop.induct)
  case (1 N M k st)
  show ?case
  proof (cases "k < maxIterations")
    case False
    then show ?thesis using "1.prems" whileLoop_ceiling [of k N M st] by simp
  next
    case True
    show ?thesis
    proof (cases "iteration N M st")
      case (Continue st1)
      then show ?thesis
        using "1.IH" [OF True Continue] "1.prems" whileLoop_Continue [OF Continue True] by simp
    next
      case (Break st1)
      then show ?thesis using whileLoop_Break [OF Break True] "1.prems" by simp
    next
      case (Return res')
      then show ?thesis
        using whileLoop_Return [OF Return True] "1.prems" iteration_ReturnE [OF Return] by simp
    qed
  qed
qed

lemma optimal_final_state:
  assumes "status (solveSimplex model) = OPTIMAL"
  obtains st where
    "whileLoop (numVariables model) (length (constraints model)) 0 (initialState model) = Inr st"
proof (cases "whileLoop (numVariables model) (length (constraints model)) 0 (initialState model)")
  case (Inl res)
  then have "status (solveSimplex model) = UNBOUNDED"
    using whileLoop_Inl [OF Inl] by (simp add: solveSimplex_def Let_def)
  then show ?thesis using assms by simp
next
  case (Inr st)
  then show ?thesis using that by blast
qed

text \<open>
  C8. When \<open>solveSimplex\<close> returns \<open>OPTIMAL\<close>, the loop has ended in a state whose tableau
  and basis give the solution: \<open>variableValues\<close> has exactly \<open>N\<close> entries; for each
  constraint row whose basic variable is a decision variable, the entry of that variable
  is the right-hand side of the row; a decision variable that no recorded step made basic
  (more generally, one that is not basic at the end) has value \<open>0\<close>; and \<open>optimalValue\<close>
  is the right-hand side of the objective row, negated for a minimisation.
\<close>

theorem solution_extraction:
  assumes "status (solveSimplex model) = OPTIMAL"
  shows "\<exists>st. whileLoop (numVariables model) (length (constraints model)) 0 (initialState model)
                = Inr st \<and>
           (let N = numVariables model; M = length (constraints model);
                t = tableau_s st; bv = basicVariables_s st; r = solveSimplex model
            in steps r = steps_s st \<and> length (variableValues r) = N \<and>
               (\<forall>i<M. bv ! i < N \<longrightarrow> variableValues r ! (bv ! i) = t ! i ! (N + M)) \<and>
               (\<forall>j<N. (\<forall>s\<in>set (steps r). pivotCol s \<noteq> Some j) \<longrightarrow>
                        variableValues r ! j = Num 0) \<and>
               (\<forall>j<N. j \<notin> set bv \<longrightarrow> variableValues r ! j = Num 0) \<and>
               optimalValue r =
                 Some (if type_m model = MINIMIZE then num_neg (t ! M ! (N + M))
                       else t ! M ! (N + M)))"
proof -
  let ?N = "numVariables model" and ?M = "length (constraints model)"
  from assms obtain st where st: "whileLoop ?N ?M 0 (initialState model) = Inr st"
    by (rule optimal_final_state)
  let ?t = "tableau_s st" and ?bv = "basicVariables_s st"
  have inv: "basisInv ?N ?M st"
    using whileLoop_basisInv [OF basisInv_initial st] .
  have d: "distinct ?bv" and len: "length ?bv = ?M"
    and prov: "\<And>i. i < ?M \<Longrightarrow>
        ?bv ! i = ?N + i \<or> (\<exists>s\<in>set (steps_s st). pivotCol s = Some (?bv ! i))"
    using inv by (auto simp: basisInv_def Let_def)
  have r: "solveSimplex model = extractSolution (type_m model = MINIMIZE) ?N ?M st"
    using st by (simp add: solveSimplex_def Let_def)
  have vs: "variableValues (solveSimplex model) = extractValues ?N ?M (?N + ?M + 1) ?t ?bv"
    and stp: "steps (solveSimplex model) = steps_s st"
    and ov: "optimalValue (solveSimplex model) =
        Some (if type_m model = MINIMIZE then num_neg (?t ! ?M ! (?N + ?M)) else ?t ! ?M ! (?N + ?M))"
    by (simp_all add: r extractSolution_def Let_def)
  note ex = extractValues_correct [OF d len, where N = ?N and C = "?N + ?M + 1" and t = ?t]
  have never: "variableValues (solveSimplex model) ! j = Num 0"
    if j: "j < ?N" and no: "\<forall>s\<in>set (steps (solveSimplex model)). pivotCol s \<noteq> Some j" for j
  proof -
    have "j \<notin> set ?bv"
    proof
      assume "j \<in> set ?bv"
      then obtain i where i: "i < ?M" "?bv ! i = j" using len by (auto simp: in_set_conv_nth)
      then show False using prov [OF i(1)] j no by (auto simp: stp)
    qed
    then show ?thesis using ex(3) [OF j] by (simp add: vs)
  qed
  have "steps (solveSimplex model) = steps_s st \<and>
        length (variableValues (solveSimplex model)) = ?N \<and>
        (\<forall>i<?M. ?bv ! i < ?N \<longrightarrow> variableValues (solveSimplex model) ! (?bv ! i) = ?t ! i ! (?N + ?M)) \<and>
        (\<forall>j<?N. (\<forall>s\<in>set (steps (solveSimplex model)). pivotCol s \<noteq> Some j) \<longrightarrow>
                 variableValues (solveSimplex model) ! j = Num 0) \<and>
        (\<forall>j<?N. j \<notin> set ?bv \<longrightarrow> variableValues (solveSimplex model) ! j = Num 0) \<and>
        optimalValue (solveSimplex model) =
          Some (if type_m model = MINIMIZE then num_neg (?t ! ?M ! (?N + ?M))
                else ?t ! ?M ! (?N + ?M))"
    using stp ex never ov by (simp add: vs)
  then show ?thesis using st unfolding Let_def by blast
qed

lemma example_iteration1: "iteration 2 2 exampleState1 = Break exampleFinal"
proof -
  have "fst (scanObjective (tableau_s exampleState1 ! 2) (2 + 2)) = None"
    by (simp add: exampleState1_def scanObjective_def eval_upt)
  then show ?thesis
    unfolding iteration_Break [of exampleState1 2 2, OF \<open>fst (scanObjective (tableau_s exampleState1 ! 2) (2 + 2)) = None\<close>]
    by (simp add: exampleFinal_def exampleState1_def)
qed

lemma example_final_state:
  "whileLoop (numVariables exampleModel) (length (constraints exampleModel)) 0
     (initialState exampleModel) = Inr exampleFinal"
  unfolding whileLoop_stateAfter [of exampleModel "Suc 0", OF example_stateAfter1 less_imp_le [OF example_ceiling(2)]]
  unfolding example_sizes
  by (rule whileLoop_Break [OF example_iteration1 example_ceiling(2)])

lemma example_status: "status (solveSimplex exampleModel) = OPTIMAL"
  unfolding solveSimplex_def Let_def example_final_state by (simp add: extractSolution_def Let_def)

theorem solution_extraction_witness:
  "status (solveSimplex exampleModel) = OPTIMAL \<and>
   length (variableValues (solveSimplex exampleModel)) = 2 \<and>
   variableValues (solveSimplex exampleModel) ! 0 = Num 0 \<and>
   variableValues (solveSimplex exampleModel) ! 1 = Num 30 \<and>
   optimalValue (solveSimplex exampleModel) = Some (Num 600)"
proof -
  from solution_extraction [OF example_status]
  obtain st where st: "whileLoop (numVariables exampleModel) (length (constraints exampleModel)) 0
        (initialState exampleModel) = Inr st"
    and rest: "let N = numVariables exampleModel; M = length (constraints exampleModel);
                t = tableau_s st; bv = basicVariables_s st; r = solveSimplex exampleModel
            in steps r = steps_s st \<and> length (variableValues r) = N \<and>
               (\<forall>i<M. bv ! i < N \<longrightarrow> variableValues r ! (bv ! i) = t ! i ! (N + M)) \<and>
               (\<forall>j<N. (\<forall>s\<in>set (steps r). pivotCol s \<noteq> Some j) \<longrightarrow>
                        variableValues r ! j = Num 0) \<and>
               (\<forall>j<N. j \<notin> set bv \<longrightarrow> variableValues r ! j = Num 0) \<and>
               optimalValue r =
                 Some (if type_m exampleModel = MINIMIZE then num_neg (t ! M ! (N + M))
                       else t ! M ! (N + M))"
    by blast
  have "st = exampleFinal" using st example_final_state by simp
  with rest [unfolded Let_def example_sizes]
  have ex: "length (variableValues (solveSimplex exampleModel)) = 2"
    "\<forall>i<2. basicVariables_s exampleFinal ! i < 2 \<longrightarrow>
       variableValues (solveSimplex exampleModel) ! (basicVariables_s exampleFinal ! i)
       = tableau_s exampleFinal ! i ! (2 + 2)"
    "\<forall>j<2. (\<forall>s\<in>set (steps (solveSimplex exampleModel)). pivotCol s \<noteq> Some j) \<longrightarrow>
       variableValues (solveSimplex exampleModel) ! j = Num 0"
    "steps (solveSimplex exampleModel) = steps_s exampleFinal"
    "optimalValue (solveSimplex exampleModel) =
       Some (if type_m exampleModel = MINIMIZE then num_neg (tableau_s exampleFinal ! 2 ! (2 + 2))
             else tableau_s exampleFinal ! 2 ! (2 + 2))"
    by simp_all
  have fin: "basicVariables_s exampleFinal = [2, 1]"
    "tableau_s exampleFinal =
       [[Num (1 / 2), Num 0, Num 1, Num (- (1 / 4)), Num 20],
        [Num (1 / 2), Num 1, Num 0, Num (1 / 4), Num 30],
        [Num 0, Num 0, Num 0, Num 5, Num 600]]"
    by (simp_all add: exampleFinal_def exampleState1_def)
  have v1: "variableValues (solveSimplex exampleModel) ! 1 = Num 30"
    using ex(2) [rule_format, of 1] by (simp add: fin)
  have never: "\<forall>s\<in>set (steps (solveSimplex exampleModel)). pivotCol s \<noteq> Some 0"
    unfolding ex(4) by (simp add: exampleFinal_def exampleStep1_def)
  have v0: "variableValues (solveSimplex exampleModel) ! 0 = Num 0"
    using ex(3) [rule_format, of 0] never by simp
  have ov: "optimalValue (solveSimplex exampleModel) = Some (Num 600)"
    using ex(5) by (simp add: fin exampleModel_def)
  show ?thesis using example_status ex(1) v0 v1 ov by blast
qed

section \<open>What the result does and does not depend on\<close>

lemma jsIndex_uminus: "num_neg (jsIndex (map uminus obj) j) = jsIndex obj j"
  by (simp add: jsIndex_def)

lemma objectiveRow_flip: "objectiveRow False N M (map uminus obj) = objectiveRow True N M obj"
  by (simp add: objectiveRow_def jsIndex_uminus)

lemma initialState_flip:
  "initialState (model\<lparr>type_m := MAXIMIZE,
       objectiveCoefficients := map uminus (objectiveCoefficients model)\<rparr>)
   = initialState (model\<lparr>type_m := MINIMIZE\<rparr>)"
  by (simp add: initialState_closed objectiveRow_flip)

lemma whileLoop_Inl_null:
  assumes "whileLoop N M k st = Inl res"
  shows "optimalValue res = None"
  using assms
proof (induction N M k st rule: whileLoop.induct)
  case (1 N M k st)
  show ?case
  proof (cases "k < maxIterations")
    case False
    then show ?thesis using "1.prems" whileLoop_ceiling [of k N M st] by simp
  next
    case True
    show ?thesis
    proof (cases "iteration N M st")
      case (Continue st1)
      then show ?thesis
        using "1.IH" [OF True Continue] "1.prems" whileLoop_Continue [OF Continue True] by simp
    next
      case (Break st1)
      then show ?thesis using whileLoop_Break [OF Break True] "1.prems" by simp
    next
      case (Return res')
      then show ?thesis
        using whileLoop_Return [OF Return True] "1.prems" iteration_ReturnE [OF Return] by simp
    qed
  qed
qed

text \<open>
  C9. Solving a minimisation of \<open>c\<cdot>x\<close> and solving the maximisation of \<open>-c\<cdot>x\<close> over the
  same constraints go through the same tableaux: same status, same trace, same variable
  values, and the optimal value of the minimisation is the negation of the optimal value
  of the maximisation (both null when unbounded).
\<close>

theorem minimize_is_negated_maximize:
  "status (solveSimplex (model\<lparr>type_m := MINIMIZE\<rparr>))
     = status (solveSimplex (model\<lparr>type_m := MAXIMIZE,
         objectiveCoefficients := map uminus (objectiveCoefficients model)\<rparr>)) \<and>
   steps (solveSimplex (model\<lparr>type_m := MINIMIZE\<rparr>))
     = steps (solveSimplex (model\<lparr>type_m := MAXIMIZE,
         objectiveCoefficients := map uminus (objectiveCoefficients model)\<rparr>)) \<and>
   variableValues (solveSimplex (model\<lparr>type_m := MINIMIZE\<rparr>))
     = variableValues (solveSimplex (model\<lparr>type_m := MAXIMIZE,
         objectiveCoefficients := map uminus (objectiveCoefficients model)\<rparr>)) \<and>
   optimalValue (solveSimplex (model\<lparr>type_m := MINIMIZE\<rparr>))
     = map_option num_neg (optimalValue (solveSimplex (model\<lparr>type_m := MAXIMIZE,
         objectiveCoefficients := map uminus (objectiveCoefficients model)\<rparr>)))"
proof (cases "whileLoop (numVariables model) (length (constraints model)) 0
                (initialState (model\<lparr>type_m := MINIMIZE\<rparr>))")
  case (Inl res)
  then have "optimalValue res = None" by (rule whileLoop_Inl_null)
  then show ?thesis
    using Inl by (simp add: solveSimplex_def Let_def initialState_flip)
next
  case (Inr st)
  then show ?thesis
    by (simp add: solveSimplex_def Let_def initialState_flip extractSolution_def)
qed

lemma example_result:
  "solveSimplex exampleModel =
     \<lparr>optimalValue = Some (Num 600), variableValues = [Num 0, Num 30], status = OPTIMAL,
      steps = steps_s exampleFinal\<rparr>"
proof -
  have vs: "extractValues 2 2 (2 + 2 + 1) (tableau_s exampleFinal) (basicVariables_s exampleFinal)
            = [Num 0, Num 30]"
    by (simp add: exampleFinal_def exampleState1_def extractValues_def eval_upt)
  have v: "tableau_s exampleFinal ! (2 + 1 - 1) ! (2 + 2 + 1 - 1) = Num 600"
    by (simp add: exampleFinal_def exampleState1_def)
  have mx: "(type_m exampleModel = MINIMIZE) = False" by (simp add: exampleModel_def)
  show ?thesis
    unfolding solveSimplex_def Let_def example_final_state
    unfolding example_sizes mx extractSolution_def Let_def using vs v by simp
qed

theorem minimize_is_negated_maximize_witness:
  "status (solveSimplex exampleMinModel) = OPTIMAL \<and>
   steps (solveSimplex exampleMinModel) = steps_s exampleFinal \<and>
   variableValues (solveSimplex exampleMinModel) = [Num 0, Num 30] \<and>
   optimalValue (solveSimplex exampleMinModel) = Some (Num (- 600))"
proof -
  have a: "exampleModel\<lparr>type_m := MINIMIZE, objectiveCoefficients := [- 10, - 20]\<rparr>
             \<lparr>type_m := MINIMIZE\<rparr> = exampleMinModel"
    by (simp add: exampleMinModel_def)
  have b: "exampleModel\<lparr>type_m := MINIMIZE, objectiveCoefficients := [- 10, - 20]\<rparr>
             \<lparr>type_m := MAXIMIZE,
              objectiveCoefficients := map uminus (objectiveCoefficients
                (exampleModel\<lparr>type_m := MINIMIZE, objectiveCoefficients := [- 10, - 20]\<rparr>))\<rparr>
           = exampleModel"
    by (simp add: exampleModel_def)
  show ?thesis
    using minimize_is_negated_maximize
      [of "exampleModel\<lparr>type_m := MINIMIZE, objectiveCoefficients := [- 10, - 20]\<rparr>"]
    unfolding a b by (simp add: example_result)
qed

lemma constraintRow_cong:
  assumes "coefficients c = coefficients c'" "rhs c = rhs c'"
  shows "constraintRow N M c i = constraintRow N M c' i"
  using assms by (simp add: constraintRow_def)

lemma initialState_cong:
  assumes "type_m m1 = type_m m2" "numVariables m1 = numVariables m2"
    "objectiveCoefficients m1 = objectiveCoefficients m2"
    "map coefficients (constraints m1) = map coefficients (constraints m2)"
    "map rhs (constraints m1) = map rhs (constraints m2)"
  shows "initialState m1 = initialState m2"
proof -
  have len: "length (constraints m1) = length (constraints m2)"
    using assms(4) by (rule map_eq_imp_length_eq)
  have rows: "constraintRow N M (constraints m1 ! i) i = constraintRow N M (constraints m2 ! i) i"
    if "i < length (constraints m2)" for i N M
  proof (rule constraintRow_cong)
    show "coefficients (constraints m1 ! i) = coefficients (constraints m2 ! i)"
      using that len nth_map [of i "constraints m1" coefficients]
        nth_map [of i "constraints m2" coefficients] assms(4) by simp
    show "rhs (constraints m1 ! i) = rhs (constraints m2 ! i)"
      using that len nth_map [of i "constraints m1" rhs]
        nth_map [of i "constraints m2" rhs] assms(5) by simp
  qed
  show ?thesis
    unfolding initialState_closed assms(1,2,3) len using rows by simp
qed

text \<open>
  C10. The result does not depend on the relation type or the identifier of any constraint,
  nor on the variable names: two models with the same direction, number of variables,
  objective coefficients and, constraint by constraint, the same coefficients and
  right-hand side have the same status, optimal value, variable values and trace.
\<close>

theorem result_ignores_type_id_and_names:
  assumes "type_m m1 = type_m m2" and "numVariables m1 = numVariables m2"
    and "objectiveCoefficients m1 = objectiveCoefficients m2"
    and "map coefficients (constraints m1) = map coefficients (constraints m2)"
    and "map rhs (constraints m1) = map rhs (constraints m2)"
  shows "solveSimplex m1 = solveSimplex m2"
proof -
  have len: "length (constraints m1) = length (constraints m2)"
    using assms(4) by (rule map_eq_imp_length_eq)
  show ?thesis
    unfolding solveSimplex_def Let_def initialState_cong [OF assms] assms(1,2) len ..
qed

theorem result_ignores_type_id_and_names_witness:
  "map type_c (constraints exampleModel) = [LESS_THAN_EQ, LESS_THAN_EQ] \<and>
   map type_c (constraints exampleRelabelled) = [GREATER_THAN_EQ, EQUALS] \<and>
   map id_c (constraints exampleModel) \<noteq> map id_c (constraints exampleRelabelled) \<and>
   variableNames exampleModel \<noteq> variableNames exampleRelabelled \<and>
   solveSimplex exampleRelabelled = solveSimplex exampleModel"
proof -
  have "solveSimplex exampleRelabelled = solveSimplex exampleModel"
    by (rule result_ignores_type_id_and_names)
       (simp_all add: exampleModel_def exampleRelabelled_def)
  then show ?thesis by (simp add: exampleModel_def exampleRelabelled_def)
qed

section \<open>Malformed models\<close>

lemma jsIndex_take: "j < N \<Longrightarrow> jsIndex (take N xs) j = jsIndex xs j"
  by (simp add: jsIndex_def)

lemma map_jsIndex_take: "map (jsIndex (take N xs)) [0..<N] = map (jsIndex xs) [0..<N]"
  by (rule map_cong) (simp_all add: jsIndex_take)

lemma constraintRow_take:
  "constraintRow N M (c\<lparr>coefficients := take N (coefficients c)\<rparr>) i = constraintRow N M c i"
  by (simp add: constraintRow_def map_jsIndex_take)

lemma objectiveRow_take: "objectiveRow isMin N M (take N obj) = objectiveRow isMin N M obj"
  unfolding objectiveRow_def by (rule arg_cong2 [where f = append, OF map_cong refl])
    (simp_all add: jsIndex_take)

lemma initialState_truncated: "initialState (truncated model) = initialState model"
  by (simp add: initialState_closed truncated_def constraintRow_take objectiveRow_take)

lemma solveSimplex_truncated: "solveSimplex (truncated model) = solveSimplex model"
proof -
  have same: "numVariables (truncated model) = numVariables model"
    "length (constraints (truncated model)) = length (constraints model)"
    "type_m (truncated model) = type_m model"
    by (simp_all add: truncated_def)
  show ?thesis
    unfolding solveSimplex_def Let_def initialState_truncated same ..
qed

lemma initial_scan_without_objective:
  assumes "numVariables model = 0 \<or> objectiveCoefficients model = []"
  shows "fst (scanObjective (tableau_s (initialState model) ! length (constraints model))
                (numVariables model + length (constraints model))) = None"
proof -
  have "\<forall>j<numVariables model + length (constraints model). \<forall>x.
          tableau_s (initialState model) ! length (constraints model) ! j = Num x \<longrightarrow> 0 \<le> x"
    using assms by (auto simp: initial_objective_row objectiveRow_nth jsIndex_def)
  then show ?thesis by (simp add: scanObjective_None_iff)
qed

lemma extractValues_slack_basis:
  "extractValues N M C t (map (\<lambda>i. N + i) [0..<M]) = replicate N (Num 0)"
proof -
  have "fold (\<lambda>i vs. let basicVarIndex = map (\<lambda>i. N + i) [0..<M] ! i
                      in if basicVarIndex < N then vs[basicVarIndex := t ! i ! (C - 1)] else vs)
          [0..<k] vs = vs" if "k \<le> M" for k vs
    using that by (induction k) (simp_all add: Let_def)
  then show ?thesis by (simp add: extractValues_def)
qed

lemma solve_without_objective:
  assumes a: "numVariables model = 0 \<or> objectiveCoefficients model = []"
  shows "solveSimplex model =
        \<lparr>optimalValue = Some (Num 0),
         variableValues = replicate (numVariables model) (Num 0), status = OPTIMAL,
         steps = [\<lparr>tableau = tableau_s (initialState model), pivotRow = None, pivotCol = None,
                   basicVariables = basicVariables_s (initialState model),
                   description = OptimalDescription, isOptimal = True\<rparr>]\<rparr>"
proof -
  let ?N = "numVariables model" and ?M = "length (constraints model)"
  let ?st = "initialState model"
  let ?fin = "?st\<lparr>steps_s := steps_s ?st @
               [\<lparr>tableau = tableau_s ?st, pivotRow = None, pivotCol = None,
                 basicVariables = basicVariables_s ?st,
                 description = OptimalDescription, isOptimal = True\<rparr>]\<rparr>"
  have lt: "0 < maxIterations" by (simp add: maxIterations_def)
  have br: "whileLoop ?N ?M 0 ?st = Inr ?fin"
    using whileLoop_Break [OF iteration_Break [OF initial_scan_without_objective [OF a]] lt] .
  have bv: "basicVariables_s ?st = map (\<lambda>i. ?N + i) [0..<?M]"
    and stp: "steps_s ?st = []"
    by (simp_all add: initialState_closed)
  have v: "tableau_s ?st ! ?M ! (?N + ?M) = Num 0"
    by (simp add: initial_objective_row objectiveRow_nth)
  show ?thesis
    unfolding solveSimplex_def Let_def br
    using v by (simp add: extractSolution_def Let_def bv extractValues_slack_basis stp)
qed

lemma truncated_longModel: "truncated longModel = exampleModel"
  by (simp add: truncated_def longModel_def exampleModel_def)

lemma emptyModel_initial:
  "initialState emptyModel = \<lparr>tableau_s = [[Num 0]], basicVariables_s = [], steps_s = []\<rparr>"
  by (simp add: initialState_closed emptyModel_def objectiveRow_def)

text \<open>
  C3 as the claim states it fails: a model without variables and without objective, and a
  model whose first constraint has three coefficients for two variables, are both solved
  and reported \<open>OPTIMAL\<close>; the third coefficient is dropped without notice.
\<close>

theorem malformed_model_counterexample:
  "numVariables emptyModel = 0 \<and> objectiveCoefficients emptyModel = [] \<and>
   solveSimplex emptyModel =
     \<lparr>optimalValue = Some (Num 0), variableValues = [], status = OPTIMAL,
      steps = [\<lparr>tableau = [[Num 0]], pivotRow = None, pivotCol = None, basicVariables = [],
                description = OptimalDescription, isOptimal = True\<rparr>]\<rparr> \<and>
   numVariables longModel = 2 \<and> coefficients (constraints longModel ! 0) = [1, 1, 7] \<and>
   solveSimplex longModel =
     \<lparr>optimalValue = Some (Num 600), variableValues = [Num 0, Num 30], status = OPTIMAL,
      steps = steps_s exampleFinal\<rparr>"
proof -
  have e: "numVariables emptyModel = 0" "objectiveCoefficients emptyModel = []"
    by (simp_all add: emptyModel_def)
  have a: "solveSimplex emptyModel =
     \<lparr>optimalValue = Some (Num 0), variableValues = [], status = OPTIMAL,
      steps = [\<lparr>tableau = [[Num 0]], pivotRow = None, pivotCol = None, basicVariables = [],
                description = OptimalDescription, isOptimal = True\<rparr>]\<rparr>"
    using solve_without_objective [of emptyModel] e by (simp add: emptyModel_initial)
  have l: "numVariables longModel = 2" "coefficients (constraints longModel ! 0) = [1, 1, 7]"
    by (simp_all add: longModel_def exampleModel_def)
  have b: "solveSimplex longModel =
     \<lparr>optimalValue = Some (Num 600), variableValues = [Num 0, Num 30], status = OPTIMAL,
      steps = steps_s exampleFinal\<rparr>"
    using solveSimplex_truncated [of longModel] by (simp add: truncated_longModel example_result)
  show ?thesis using e a l b by blast
qed

text \<open>
  C3 as the code has it. \<open>solveSimplex\<close> validates nothing and raises nothing: it builds the
  tableau of every model. With no variable, or with an empty objective sequence, it
  returns \<open>OPTIMAL\<close> with value \<open>0\<close>, \<open>numVariables\<close> zeros as variable values and the
  terminal step alone; and it never reads a coefficient sequence past index
  \<open>numVariables - 1\<close>, so that the result is that of the model with the sequences cut to
  \<open>numVariables\<close> entries.
\<close>

theorem malformed_model_is_solved:
  "(numVariables model = 0 \<or> objectiveCoefficients model = [] \<longrightarrow>
      solveSimplex model =
        \<lparr>optimalValue = Some (Num 0),
         variableValues = replicate (numVariables model) (Num 0),
         status = OPTIMAL,
         steps = [\<lparr>tableau = tableau_s (initialState model), pivotRow = None, pivotCol = None,
                   basicVariables = basicVariables_s (initialState model),
                   description = OptimalDescription, isOptimal = True\<rparr>]\<rparr>) \<and>
   solveSimplex model = solveSimplex (truncated model)"
  using solve_without_objective [of model] by (simp add: solveSimplex_truncated)

theorem malformed_model_is_solved_witness:
  "status (solveSimplex emptyModel) = OPTIMAL \<and>
   optimalValue (solveSimplex emptyModel) = Some (Num 0) \<and>
   variableValues (solveSimplex emptyModel) = [] \<and>
   length (steps (solveSimplex emptyModel)) = 1 \<and>
   truncated longModel = exampleModel \<and>
   solveSimplex longModel = solveSimplex exampleModel"
  using malformed_model_is_solved [of emptyModel] malformed_model_is_solved [of longModel]
  by (simp add: truncated_longModel emptyModel_def)

section \<open>The ratio test, whatever the arithmetic computes\<close>




lemma iteration_records_pivot:
  assumes "iteration N M st = Continue st'"
  shows "\<exists>pc pr. fst (scanObjective (tableau_s st ! M) (N + M)) = Some pc \<and>
           fst (ratioTest (tableau_s st) pc M (N + M + 1)) = Some pr \<and>
           steps_s st' = steps_s st @
             [\<lparr>tableau = tableau_s st, pivotRow = Some pr, pivotCol = Some pc,
               basicVariables = basicVariables_s st,
               description = PivotDescription (pr + 1) (pc + 1) (pc + 1)
                 (int (basicVariables_s st ! pr) - int N + 1),
               isOptimal = False\<rparr>] \<and>
           basicVariables_s st' = (basicVariables_s st)[pr := pc]"
  using assms by (auto simp: iteration_def Let_def split: option.splits)





section \<open>The optimality test and the entering column\<close>

lemma noObjective_sizes:
  "numVariables noObjectiveModel = 1" "length (constraints noObjectiveModel) = 1"
  by (simp_all add: noObjectiveModel_def)

lemma noObjective_initial:
  "initialState noObjectiveModel =
     \<lparr>tableau_s = [[Num 1, Num 1, Num 1], [NaN, Num 0, Num 0]],
      basicVariables_s = [1], steps_s = []\<rparr>"
  by (simp add: initialState_closed noObjectiveModel_def constraintRow_def objectiveRow_def
      jsIndex_def)

text \<open>
  C5 as the claim states it fails: on \<open>noObjectiveModel\<close> the first entry of the objective
  row is not a number, so that not every entry is \<open>\<ge> 0\<close>; yet no entering column is
  selected, the terminal step is appended and the status is \<open>OPTIMAL\<close>.
\<close>

theorem optimality_test_counterexample:
  "tableau_s (initialState noObjectiveModel) ! 1 = [NaN, Num 0, Num 0] \<and>
   fst (scanObjective (tableau_s (initialState noObjectiveModel) ! 1) 2) = None \<and>
   status (solveSimplex noObjectiveModel) = OPTIMAL \<and>
   map isOptimal (steps (solveSimplex noObjectiveModel)) = [True] \<and>
   map pivotCol (steps (solveSimplex noObjectiveModel)) = [None]"
proof -
  have row: "tableau_s (initialState noObjectiveModel) ! 1 = [NaN, Num 0, Num 0]"
    by (simp add: noObjective_initial)
  have sc: "fst (scanObjective (tableau_s (initialState noObjectiveModel) ! 1) 2) = None"
    unfolding row by (simp add: scanObjective_def eval_upt)
  have "objectiveCoefficients noObjectiveModel = []" by (simp add: noObjectiveModel_def)
  then have res: "status (solveSimplex noObjectiveModel) = OPTIMAL"
    "map isOptimal (steps (solveSimplex noObjectiveModel)) = [True]"
    "map pivotCol (steps (solveSimplex noObjectiveModel)) = [None]"
    using solve_without_objective [of noObjectiveModel] by simp_all
  show ?thesis using row sc res by blast
qed

text \<open>
  C5 as the code has it. Every iteration scans the entries of the objective row other
  than the right-hand side, whatever tableau it finds. If no entry is a negative number
  (each is \<open>\<ge> 0\<close> or is not a number) the loop ends with the terminal step appended to
  the trace, without pivot coordinates and with \<open>isOptimal = true\<close>, and the status is
  \<open>OPTIMAL\<close>. Otherwise the entering column is the column of the most negative entry,
  the lowest index among equal entries; the iteration does not end the loop as optimal,
  and the step that it records when it pivots has that column as pivot column.
\<close>

theorem optimality_test_and_entering_column:
  assumes "k < maxIterations"
  shows "let row = tableau_s st ! M;
             terminal = \<lparr>tableau = tableau_s st, pivotRow = None, pivotCol = None,
                         basicVariables = basicVariables_s st,
                         description = OptimalDescription, isOptimal = True\<rparr>
         in ((\<forall>j<N + M. \<forall>x. row ! j = Num x \<longrightarrow> 0 \<le> x) \<longrightarrow>
               whileLoop N M k st = Inr (st\<lparr>steps_s := steps_s st @ [terminal]\<rparr>) \<and>
               (\<forall>model. stateAfter model k = Some st \<and> numVariables model = N \<and>
                         length (constraints model) = M \<longrightarrow>
                  status (solveSimplex model) = OPTIMAL \<and>
                  steps (solveSimplex model) = steps_s st @ [terminal])) \<and>
            (\<not> (\<forall>j<N + M. \<forall>x. row ! j = Num x \<longrightarrow> 0 \<le> x) \<longrightarrow>
               (\<exists>pc x. fst (scanObjective row (N + M)) = Some pc \<and> pc < N + M \<and>
                  row ! pc = Num x \<and> x < 0 \<and>
                  (\<forall>j<N + M. \<forall>y. row ! j = Num y \<longrightarrow> x \<le> y) \<and>
                  (\<forall>j<pc. \<forall>y. row ! j = Num y \<longrightarrow> x < y) \<and>
                  (\<forall>st'. iteration N M st \<noteq> Break st') \<and>
                  (\<forall>st'. iteration N M st = Continue st' \<longrightarrow>
                     pivotCol (last (steps_s st')) = Some pc)))"
proof -
  let ?row = "tableau_s st ! M"
  let ?terminal = "\<lparr>tableau = tableau_s st, pivotRow = None, pivotCol = None,
                    basicVariables = basicVariables_s st,
                    description = OptimalDescription, isOptimal = True\<rparr>"
  have opt: "whileLoop N M k st = Inr (st\<lparr>steps_s := steps_s st @ [?terminal]\<rparr>) \<and>
       (\<forall>model. stateAfter model k = Some st \<and> numVariables model = N \<and>
                 length (constraints model) = M \<longrightarrow>
          status (solveSimplex model) = OPTIMAL \<and>
          steps (solveSimplex model) = steps_s st @ [?terminal])"
    if "\<forall>j<N + M. \<forall>x. ?row ! j = Num x \<longrightarrow> 0 \<le> x"
  proof -
    have sc: "fst (scanObjective ?row (N + M)) = None"
      using that by (simp add: scanObjective_None_iff)
    have a: "whileLoop N M k st = Inr (st\<lparr>steps_s := steps_s st @ [?terminal]\<rparr>)"
      using whileLoop_Break [OF iteration_Break [OF sc] assms] .
    have b: "status (solveSimplex model) = OPTIMAL \<and>
             steps (solveSimplex model) = steps_s st @ [?terminal]"
      if m: "stateAfter model k = Some st" "numVariables model = N"
        "length (constraints model) = M" for model
      using whileLoop_optimal [OF m(1) assms] sc m(2,3)
      by (simp add: extractSolution_def Let_def)
    show ?thesis using a b by blast
  qed
  have ent: "\<exists>pc x. fst (scanObjective ?row (N + M)) = Some pc \<and> pc < N + M \<and>
                  ?row ! pc = Num x \<and> x < 0 \<and>
                  (\<forall>j<N + M. \<forall>y. ?row ! j = Num y \<longrightarrow> x \<le> y) \<and>
                  (\<forall>j<pc. \<forall>y. ?row ! j = Num y \<longrightarrow> x < y) \<and>
                  (\<forall>st'. iteration N M st \<noteq> Break st') \<and>
                  (\<forall>st'. iteration N M st = Continue st' \<longrightarrow>
                     pivotCol (last (steps_s st')) = Some pc)"
    if neg: "\<not> (\<forall>j<N + M. \<forall>x. ?row ! j = Num x \<longrightarrow> 0 \<le> x)"
  proof -
    have "fst (scanObjective ?row (N + M)) \<noteq> None"
      using neg by (simp add: scanObjective_None_iff)
    then obtain pc where sc: "fst (scanObjective ?row (N + M)) = Some pc" by auto
    from scanObjective_Some [OF sc] obtain x where pc: "pc < N + M"
      and x: "?row ! pc = Num x" "x < 0"
      and mn: "\<forall>j<N + M. \<forall>y. ?row ! j = Num y \<longrightarrow> x \<le> y"
      and fs: "\<forall>j<pc. \<forall>y. ?row ! j = Num y \<longrightarrow> x < y" by auto
    have nb: "iteration N M st \<noteq> Break st'" for st'
      using iteration_BreakE [of N M st st'] sc by auto
    have c: "pivotCol (last (steps_s st')) = Some pc" if it: "iteration N M st = Continue st'" for st'
      using iteration_records_pivot [OF it] sc by auto
    show ?thesis using sc pc x mn fs nb c by blast
  qed
  show ?thesis unfolding Let_def using opt ent by blast
qed

theorem optimality_test_and_entering_column_witness:
  "stateAfter exampleModel 0 = Some exampleState0 \<and>
   stateAfter exampleModel (Suc 0) = Some exampleState1 \<and>
   fst (scanObjective (tableau_s exampleState0 ! 2) 4) = Some 1 \<and>
   whileLoop 2 2 (Suc 0) exampleState1 = Inr exampleFinal \<and>
   status (solveSimplex exampleModel) = OPTIMAL \<and>
   steps (solveSimplex exampleModel) =
     [exampleStep1,
      \<lparr>tableau = tableau_s exampleState1, pivotRow = None, pivotCol = None,
        basicVariables = basicVariables_s exampleState1,
        description = OptimalDescription, isOptimal = True\<rparr>]"
proof -
  note T0 = optimality_test_and_entering_column
    [OF example_ceiling(1), where st = exampleState0 and N = 2 and M = 2, unfolded Let_def]
  note T1 = optimality_test_and_entering_column
    [OF example_ceiling(2), where st = exampleState1 and N = 2 and M = 2, unfolded Let_def]
  have row0: "tableau_s exampleState0 ! 2 = [Num (- 10), Num (- 20), Num 0, Num 0, Num 0]"
    by (simp add: exampleState0_def)
  have row1: "tableau_s exampleState1 ! 2 = [Num 0, Num 0, Num 0, Num 5, Num 600]"
    by (simp add: exampleState1_def)
  have neg: "\<not> (\<forall>j<2 + 2. \<forall>x. tableau_s exampleState0 ! 2 ! j = Num x \<longrightarrow> 0 \<le> x)"
    unfolding row0 by (simp add: All_less_Suc eval_nat_numeral)
  have pos: "\<forall>j<2 + 2. \<forall>x. tableau_s exampleState1 ! 2 ! j = Num x \<longrightarrow> 0 \<le> x"
    unfolding row1 by (simp add: All_less_Suc eval_nat_numeral)
  from T0 neg obtain pc where pc: "fst (scanObjective (tableau_s exampleState0 ! 2) (2 + 2)) = Some pc"
    and "\<forall>st'. iteration 2 2 exampleState0 = Continue st' \<longrightarrow> pivotCol (last (steps_s st')) = Some pc"
    by blast
  then have "pivotCol (last (steps_s exampleState1)) = Some pc"
    using example_iteration0 by blast
  then have "pc = 1" by (simp add: exampleState1_def exampleStep1_def)
  then have a: "fst (scanObjective (tableau_s exampleState0 ! 2) 4) = Some 1" using pc by simp
  have fin: "exampleState1\<lparr>steps_s := steps_s exampleState1 @
       [\<lparr>tableau = tableau_s exampleState1, pivotRow = None, pivotCol = None,
         basicVariables = basicVariables_s exampleState1,
         description = OptimalDescription, isOptimal = True\<rparr>]\<rparr> = exampleFinal"
    by (simp add: exampleFinal_def exampleState1_def)
  from T1 pos have w: "whileLoop 2 2 (Suc 0) exampleState1 = Inr exampleFinal"
    and m: "\<forall>model. stateAfter model (Suc 0) = Some exampleState1 \<and> numVariables model = 2 \<and>
                     length (constraints model) = 2 \<longrightarrow>
              status (solveSimplex model) = OPTIMAL \<and>
              steps (solveSimplex model) = steps_s exampleState1 @
                [\<lparr>tableau = tableau_s exampleState1, pivotRow = None, pivotCol = None,
                  basicVariables = basicVariables_s exampleState1,
                  description = OptimalDescription, isOptimal = True\<rparr>]"
    unfolding fin by blast+
  have b: "status (solveSimplex exampleModel) = OPTIMAL \<and>
     steps (solveSimplex exampleModel) =
       [exampleStep1,
        \<lparr>tableau = tableau_s exampleState1, pivotRow = None, pivotCol = None,
          basicVariables = basicVariables_s exampleState1,
          description = OptimalDescription, isOptimal = True\<rparr>]"
    using m [rule_format, of exampleModel] example_stateAfter1 example_sizes
    by (simp add: exampleState1_def)
  show ?thesis
    using example_stateAfter0 example_stateAfter1 a w b by blast
qed

section \<open>The columns of the basic variables\<close>

lemma shortRow_sizes:
  "numVariables shortRowModel = 1" "length (constraints shortRowModel) = 2"
  by (simp_all add: shortRowModel_def)

lemma shortRow_initial: "initialState shortRowModel = shortRowState0"
  by (simp add: initialState_closed shortRowModel_def shortRowState0_def constraintRow_def
      objectiveRow_def jsIndex_def eval_upt)

lemma shortRow_iteration0: "iteration 1 2 shortRowState0 = Continue shortRowState1"
proof -
  have sh: "shape (2 + 1) (1 + 2 + 1) (tableau_s shortRowState0)"
    by (simp add: shortRowState0_def shape_def All_less_Suc eval_nat_numeral)
  have sc: "fst (scanObjective (tableau_s shortRowState0 ! 2) (1 + 2)) = Some 0"
    by (simp add: shortRowState0_def scanObjective_def eval_upt)
  have rt: "fst (ratioTest (tableau_s shortRowState0) 0 2 (1 + 2 + 1)) = Some 0"
    by (simp add: shortRowState0_def ratioTest_def eval_upt)
  have pv: "pivot (tableau_s shortRowState0) 0 0 = tableau_s shortRowState1"
    by (simp add: shortRowState0_def shortRowState1_def pivot_def eval_upt)
  show ?thesis
    unfolding iteration_Continue [OF sh sc rt] pv
    by (simp add: shortRowState0_def shortRowState1_def)
qed

lemma shortRow_stateAfter1: "stateAfter shortRowModel (Suc 0) = Some shortRowState1"
  using shortRow_iteration0 by (simp add: shortRow_sizes shortRow_initial)

text \<open>
  C7 as the claim states it fails: on \<open>shortRowModel\<close> the first pivot turns the whole of
  row 1 into \<open>NaN\<close>, so that the column of its basic variable (column 2) has no \<open>1\<close> in row
  1 and the column of the basic variable of row 0 (column 0) has no \<open>0\<close> in row 1.
\<close>

theorem basic_columns_counterexample:
  "stateAfter shortRowModel (Suc 0) = Some shortRowState1 \<and>
   basicVariables_s shortRowState1 = [0, 2] \<and>
   tableau_s shortRowState1 ! 1 ! 2 = NaN \<and> tableau_s shortRowState1 ! 1 ! 0 = NaN"
  using shortRow_stateAfter1 by (simp add: shortRowState1_def)

text \<open>
  C7 as the code has it. After every pivot operation the basis has one variable per
  constraint and no variable twice, and the column of the basic variable of row \<open>i\<close>
  holds, among the constraint rows, \<open>1\<close> or \<open>NaN\<close> in row \<open>i\<close> and \<open>0\<close> or \<open>NaN\<close> in every
  other row: a unit vector wherever its cells are numbers. The pivot produces these
  cells as \<open>p / p\<close>, \<open>f - f * 1\<close>, \<open>0 / p\<close> and \<open>c - f * 0\<close>, which are \<open>1\<close>, \<open>0\<close>, \<open>0\<close> and \<open>c\<close>
  with or without rounding whenever they are numbers.
\<close>

theorem basic_columns_are_unit_vectors:
  assumes "stateAfter model (Suc n) = Some st"
  shows "length (basicVariables_s st) = length (constraints model) \<and>
         distinct (basicVariables_s st) \<and>
         (\<forall>i<length (constraints model). \<forall>k<length (constraints model).
            tableau_s st ! k ! (basicVariables_s st ! i) = NaN \<or>
            tableau_s st ! k ! (basicVariables_s st ! i) = Num (if k = i then 1 else 0))"
  using basisInv_stateAfter [OF assms] by (simp add: basisInv_def Let_def)

theorem basic_columns_are_unit_vectors_witness:
  "stateAfter exampleModel (Suc 0) = Some exampleState1 \<and>
   length (basicVariables_s exampleState1) = 2 \<and> distinct (basicVariables_s exampleState1) \<and>
   basicVariables_s exampleState1 = [2, 1] \<and>
   tableau_s exampleState1 ! 0 ! 2 = Num 1 \<and> tableau_s exampleState1 ! 1 ! 2 = Num 0 \<and>
   tableau_s exampleState1 ! 0 ! 1 = Num 0 \<and> tableau_s exampleState1 ! 1 ! 1 = Num 1 \<and>
   stateAfter shortRowModel (Suc 0) = Some shortRowState1 \<and>
   distinct (basicVariables_s shortRowState1) \<and>
   tableau_s shortRowState1 ! 0 ! 0 = Num 1 \<and> tableau_s shortRowState1 ! 0 ! 2 = Num 0"
proof -
  note unit = basic_columns_are_unit_vectors [OF example_stateAfter1]
  note short = basic_columns_are_unit_vectors [OF shortRow_stateAfter1]
  have len: "length (basicVariables_s exampleState1) = 2 \<and> distinct (basicVariables_s exampleState1)"
    using unit by (simp add: example_sizes)
  have d: "distinct (basicVariables_s shortRowState1)" using short by simp
  have cells: "basicVariables_s exampleState1 = [2, 1]"
    "tableau_s exampleState1 ! 0 ! 2 = Num 1" "tableau_s exampleState1 ! 1 ! 2 = Num 0"
    "tableau_s exampleState1 ! 0 ! 1 = Num 0" "tableau_s exampleState1 ! 1 ! 1 = Num 1"
    "tableau_s shortRowState1 ! 0 ! 0 = Num 1" "tableau_s shortRowState1 ! 0 ! 2 = Num 0"
    by (simp_all add: exampleState1_def shortRowState1_def)
  show ?thesis
    using example_stateAfter1 shortRow_stateAfter1 len d cells by blast
qed

end
